theory Spec2Isabelle
  imports Complex_Main "HOL-Library.Word"
begin

section \<open>Data model\<close>

text \<open>
  The engine of \<^verbatim>\<open>services/VoxelEngine.ts\<close> and \<^verbatim>\<open>normalizeVoxels\<close> of \<^verbatim>\<open>App.tsx\<close>.
  The sources hold more than one revision of the engine; the model follows the one with
  the two-argument \<^verbatim>\<open>onCountChange\<close> callback, and adds \<^verbatim>\<open>updatePhysics\<close> of the
  revision before it, whose frame handler can end a rebuild by itself.
  JavaScript numbers are modelled as reals. Record fields carry a prefix, since
  \<^verbatim>\<open>VoxelData\<close>, \<^verbatim>\<open>SimulationVoxel\<close> and \<^verbatim>\<open>RebuildTarget\<close> share the names
  \<^verbatim>\<open>x\<close>, \<^verbatim>\<open>y\<close>, \<^verbatim>\<open>z\<close> and \<^verbatim>\<open>color\<close>.
\<close>

datatype AppState = STABLE | DISMANTLING | REBUILDING

text \<open>\<^verbatim>\<open>VoxelData\<close>: a grid position and a colour given as a hex number.\<close>

record VoxelData =
  vd_x :: real
  vd_y :: real
  vd_z :: real
  vd_color :: nat

text \<open>
  A \<^verbatim>\<open>THREE.Color\<close> built from a hex number: \<^verbatim>\<open>setHex\<close> stores
  \<^verbatim>\<open>(hex >> 16 & 255) / 255\<close>, \<^verbatim>\<open>(hex >> 8 & 255) / 255\<close> and \<^verbatim>\<open>(hex & 255) / 255\<close>.
  The three bytes are kept; \<open>col_r\<close> is the field \<^verbatim>\<open>r\<close>.
\<close>

datatype Color = Color (chan_r: "8 word") (chan_g: "8 word") (chan_b: "8 word")

definition setHex :: "nat \<Rightarrow> Color" where
  "setHex hex = Color (of_nat (hex div 65536)) (of_nat (hex div 256)) (of_nat hex)"

definition col_r :: "Color \<Rightarrow> real" where
  "col_r c = real (unat (chan_r c)) / 255"

record SimulationVoxel =
  sv_id :: nat
  sv_x :: real
  sv_y :: real
  sv_z :: real
  sv_color :: Color
  sv_vx :: real
  sv_vy :: real
  sv_vz :: real
  sv_rx :: real
  sv_ry :: real
  sv_rz :: real
  sv_rvx :: real
  sv_rvy :: real
  sv_rvz :: real

text \<open>
  \<^verbatim>\<open>RebuildTarget\<close>. The field \<^verbatim>\<open>isRubble\<close> is optional in the source and only ever
  tested for truthiness, so an absent field is \<open>False\<close>.
\<close>

record RebuildTarget =
  rt_x :: real
  rt_y :: real
  rt_z :: real
  delay :: real
  isRubble :: bool

text \<open>
  The simulation fields of \<^verbatim>\<open>VoxelEngine\<close>. Scene, camera, renderer, instance mesh and
  the two callbacks belong to the host and are left out: no method reads them back into
  these fields.
\<close>

record Engine =
  voxels :: "SimulationVoxel list"
  rebuildTargets :: "RebuildTarget list"
  rebuildStartTime :: real
  state :: AppState
  isProgressive :: bool
  manualProgress :: real

text \<open>\<^verbatim>\<open>this.rebuildTargets[i]\<close>: \<^verbatim>\<open>undefined\<close> out of range.\<close>

definition target_at :: "RebuildTarget list \<Rightarrow> nat \<Rightarrow> RebuildTarget option" where
  "target_at ts i = (if i < length ts then Some (ts ! i) else None)"

section \<open>finishRebuild and setProgress\<close>

text \<open>
  The body of the \<^verbatim>\<open>forEach\<close> in \<^verbatim>\<open>finishRebuild\<close>. \<open>FLOOR_Y\<close> is
  \<^verbatim>\<open>CONFIG.FLOOR_Y\<close>, a constant of \<^verbatim>\<open>utils/voxelConstants\<close>, taken as a parameter.
\<close>

definition finish_voxel :: "real \<Rightarrow> RebuildTarget option \<Rightarrow> SimulationVoxel \<Rightarrow> SimulationVoxel" where
  "finish_voxel FLOOR_Y t v =
     (case t of
        None \<Rightarrow> v
      | Some t \<Rightarrow>
          if \<not> isRubble t
          then v\<lparr>sv_x := rt_x t, sv_y := rt_y t, sv_z := rt_z t,
                 sv_rx := 0, sv_ry := 0, sv_rz := 0, sv_vx := 0, sv_vy := 0, sv_vz := 0\<rparr>
          else v\<lparr>sv_y := FLOOR_Y - 300\<rparr>)"

definition finishRebuild :: "real \<Rightarrow> Engine \<Rightarrow> Engine" where
  "finishRebuild FLOOR_Y s =
     s\<lparr>manualProgress := 1,
       state := STABLE,
       voxels := map (\<lambda>(i, v). finish_voxel FLOOR_Y (target_at (rebuildTargets s) i) v)
                     (enumerate 0 (voxels s))\<rparr>"

definition setProgress :: "real \<Rightarrow> real \<Rightarrow> Engine \<Rightarrow> Engine" where
  "setProgress FLOOR_Y p s =
     (let s1 = s\<lparr>manualProgress := p\<rparr>
      in if p \<ge> 1 \<and> state s1 = REBUILDING then finishRebuild FLOOR_Y s1 else s1)"

section \<open>createVoxels and loadInitialModel\<close>

text \<open>
  \<^verbatim>\<open>createVoxels\<close>: the store is replaced by one fresh voxel per entry of the data, at
  the entry's position and colour, at rest. The mesh it allocates is left out.
\<close>

definition createVoxels :: "VoxelData list \<Rightarrow> SimulationVoxel list" where
  "createVoxels data =
     map (\<lambda>(i, v). \<lparr>sv_id = i, sv_x = vd_x v, sv_y = vd_y v, sv_z = vd_z v,
                      sv_color = setHex (vd_color v),
                      sv_vx = 0, sv_vy = 0, sv_vz = 0, sv_rx = 0, sv_ry = 0, sv_rz = 0,
                      sv_rvx = 0, sv_rvy = 0, sv_rvz = 0\<rparr>)
         (enumerate 0 data)"

definition loadInitialModel :: "VoxelData list \<Rightarrow> Engine \<Rightarrow> Engine" where
  "loadInitialModel data s =
     s\<lparr>state := STABLE,
       manualProgress := 0,
       rebuildTargets := map (\<lambda>v. \<lparr>rt_x = vd_x v, rt_y = vd_y v, rt_z = vd_z v,
                                     delay = 0, isRubble = False\<rparr>) data,
       voxels := createVoxels data\<rparr>"

section \<open>rebuild: the assignment of voxels to targets\<close>

text \<open>
  An entry of the local array \<^verbatim>\<open>available\<close>. Its \<^verbatim>\<open>color\<close> is the voxel's own
  \<^verbatim>\<open>THREE.Color\<close> object, so \<^verbatim>\<open>setHex\<close> on the voxel shows in the entry too.
\<close>

record Avail =
  av_index :: nat
  av_color :: Color
  av_taken :: bool

text \<open>
  The inner \<^verbatim>\<open>for\<close> loop over \<^verbatim>\<open>available\<close>, from position \<open>i\<close> on, with the
  running \<^verbatim>\<open>bestDist\<close> and \<^verbatim>\<open>bestIdx\<close> (\<open>None\<close> is \<^verbatim>\<open>-1\<close>). The distance is the
  difference of the red channels only; \<^verbatim>\<open>d < 0.01\<close> leaves the loop.
\<close>

fun scan :: "VoxelData \<Rightarrow> Avail list \<Rightarrow> nat \<Rightarrow> real \<Rightarrow> nat option \<Rightarrow> nat option" where
  "scan target [] i bestDist bestIdx = bestIdx"
| "scan target (a # rest) i bestDist bestIdx =
     (if av_taken a then scan target rest (Suc i) bestDist bestIdx
      else
        let d = \<bar>col_r (av_color a) - col_r (setHex (vd_color target))\<bar>
        in if d < bestDist
           then (if d < 1 / 100 then Some i else scan target rest (Suc i) d (Some i))
           else scan target rest (Suc i) bestDist bestIdx)"

text \<open>The target written to \<^verbatim>\<open>mappings[vIdx]\<close>; \<open>n\<close> is \<^verbatim>\<open>sortedTargets.length\<close>.\<close>

definition mk_target :: "nat \<Rightarrow> VoxelData \<Rightarrow> nat \<Rightarrow> RebuildTarget" where
  "mk_target n target targetIdx =
     \<lparr>rt_x = vd_x target, rt_y = vd_y target, rt_z = vd_z target,
      delay = real targetIdx / real n, isRubble = False\<rparr>"

text \<open>
  The body of \<^verbatim>\<open>sortedTargets.forEach\<close> for one target, on the three arrays it
  changes: \<^verbatim>\<open>available\<close>, \<^verbatim>\<open>mappings\<close> (\<open>None\<close> is \<^verbatim>\<open>null\<close>) and the voxel store.
  \<^verbatim>\<open>vIdx\<close> is read from the entry; the colour written to voxel \<^verbatim>\<open>vIdx\<close> is seen
  by \<^verbatim>\<open>available[vIdx]\<close>, which shares the object.
\<close>

type_synonym assignment = "Avail list \<times> RebuildTarget option list \<times> SimulationVoxel list"

definition assign_target :: "nat \<Rightarrow> VoxelData \<Rightarrow> nat \<Rightarrow> assignment \<Rightarrow> assignment" where
  "assign_target n target targetIdx st =
     (case st of (available, mappings, vs) \<Rightarrow>
        (case scan target available 0 9999 None of
           None \<Rightarrow> st
         | Some bestIdx \<Rightarrow>
             let vIdx = av_index (available ! bestIdx);
                 available1 = available[bestIdx := (available ! bestIdx)\<lparr>av_taken := True\<rparr>];
                 mappings1 = mappings[vIdx := Some (mk_target n target targetIdx)];
                 vs1 = vs[vIdx := (vs ! vIdx)\<lparr>sv_color := setHex (vd_color target)\<rparr>];
                 available2 = available1[vIdx := (available1 ! vIdx)
                                \<lparr>av_color := setHex (vd_color target)\<rparr>]
             in (available2, mappings1, vs1)))"

fun assign_all :: "nat \<Rightarrow> VoxelData list \<Rightarrow> nat \<Rightarrow> assignment \<Rightarrow> assignment" where
  "assign_all n [] targetIdx st = st"
| "assign_all n (target # rest) targetIdx st =
     assign_all n rest (Suc targetIdx) (assign_target n target targetIdx st)"

text \<open>The final loop: every slot still \<^verbatim>\<open>null\<close> becomes a rubble target.\<close>

definition fill_rubble :: "real \<Rightarrow> RebuildTarget option \<Rightarrow> RebuildTarget" where
  "fill_rubble FLOOR_Y m =
     (case m of
        None \<Rightarrow> \<lparr>rt_x = 0, rt_y = FLOOR_Y - 300, rt_z = 0, delay = 2, isRubble = True\<rparr>
      | Some t \<Rightarrow> t)"

text \<open>
  \<^verbatim>\<open>rebuild(targetModel, progressive)\<close>; \<open>now\<close> is the value of \<^verbatim>\<open>Date.now()\<close>.
  \<^verbatim>\<open>[...targetModel].sort((a, b) => a.y - b.y)\<close> is a stable sort by \<^verbatim>\<open>y\<close>, as
  \<open>sort_key\<close> is.
\<close>

definition grow :: "VoxelData list \<Rightarrow> Engine \<Rightarrow> Engine" where
  "grow targetModel s =
     (if length targetModel > length (voxels s)
      then s\<lparr>rebuildTargets := map (\<lambda>v. \<lparr>rt_x = vd_x v, rt_y = vd_y v, rt_z = vd_z v,
                                           delay = 2, isRubble = False\<rparr>) targetModel,
             voxels := createVoxels targetModel\<rparr>
      else s)"

definition initial_available :: "SimulationVoxel list \<Rightarrow> Avail list" where
  "initial_available vs =
     map (\<lambda>(i, v). \<lparr>av_index = i, av_color = sv_color v, av_taken = False\<rparr>) (enumerate 0 vs)"

definition rebuild :: "real \<Rightarrow> real \<Rightarrow> VoxelData list \<Rightarrow> bool \<Rightarrow> Engine \<Rightarrow> Engine" where
  "rebuild FLOOR_Y now targetModel progressive s =
     (let s1 = grow targetModel (s\<lparr>state := REBUILDING, isProgressive := progressive\<rparr>);
          sortedTargets = sort_key vd_y targetModel;
          available = initial_available (voxels s1);
          mappings = replicate (length (voxels s1)) None
      in case assign_all (length sortedTargets) sortedTargets 0 (available, mappings, voxels s1) of
           (available', mappings', vs') \<Rightarrow>
             s1\<lparr>voxels := vs',
                rebuildTargets := map (fill_rubble FLOOR_Y) mappings',
                rebuildStartTime := now\<rparr>)"

section \<open>animate: the per-frame integrator\<close>




section \<open>updatePhysics of the earlier engine revision\<close>




section \<open>normalizeVoxels\<close>

text \<open>\<^verbatim>\<open>Math.round\<close>: the nearest integer, a half rounded up.\<close>

definition js_round :: "real \<Rightarrow> real" where
  "js_round a = of_int \<lfloor>a + 1 / 2\<rfloor>"

text \<open>
  The running minimum and maximum start at \<^verbatim>\<open>Infinity\<close> and \<^verbatim>\<open>-Infinity\<close>, so after
  the first voxel they hold its coordinate; the fold starts there and runs over the
  others. The empty list is returned as it is.
\<close>

fun normalizeVoxels :: "VoxelData list \<Rightarrow> VoxelData list" where
  "normalizeVoxels [] = []"
| "normalizeVoxels (v # vs) =
     (let minX = fold (\<lambda>u m. min m (vd_x u)) vs (vd_x v);
          maxX = fold (\<lambda>u m. max m (vd_x u)) vs (vd_x v);
          minY = fold (\<lambda>u m. min m (vd_y u)) vs (vd_y v);
          minZ = fold (\<lambda>u m. min m (vd_z u)) vs (vd_z v);
          maxZ = fold (\<lambda>u m. max m (vd_z u)) vs (vd_z v);
          offsetX = - (minX + maxX) / 2;
          offsetY = - minY;
          offsetZ = - (minZ + maxZ) / 2
      in map (\<lambda>u. u\<lparr>vd_x := js_round (vd_x u + offsetX),
                      vd_y := js_round (vd_y u + offsetY),
                      vd_z := js_round (vd_z u + offsetZ)\<rparr>) (v # vs))"

section \<open>Invariant of the assignment loop\<close>

text \<open>
  What holds of \<^verbatim>\<open>available\<close>, \<^verbatim>\<open>mappings\<close> and the store after the first \<open>k\<close> targets
  of the sorted list \<open>srt\<close> have been handled: the arrays have one length, an entry is
  taken exactly when its slot is filled, \<open>k\<close> entries are taken, every filled slot holds
  the target of some rank below \<open>k\<close> and its voxel has that target's colour, every rank
  below \<open>k\<close> fills some slot, and no two slots hold the same delay.
\<close>

definition assign_inv :: "VoxelData list \<Rightarrow> nat \<Rightarrow> assignment \<Rightarrow> bool" where
  "assign_inv srt k st =
     (case st of (av, mp, vs) \<Rightarrow>
        length av = length mp \<and> length vs = length mp \<and>
        k \<le> length srt \<and> length srt \<le> length mp \<and>
        (\<forall>i < length mp. av_index (av ! i) = i) \<and>
        (\<forall>i < length mp. av_taken (av ! i) \<longleftrightarrow> mp ! i \<noteq> None) \<and>
        length (filter av_taken av) = k \<and>
        (\<forall>i < length mp. \<forall>t. mp ! i = Some t \<longrightarrow>
           (\<exists>j < k. t = mk_target (length srt) (srt ! j) j \<and>
                    sv_color (vs ! i) = setHex (vd_color (srt ! j)))) \<and>
        (\<forall>j < k. \<exists>i < length mp. mp ! i = Some (mk_target (length srt) (srt ! j) j)) \<and>
        (\<forall>i < length mp. \<forall>i' < length mp. \<forall>t t'.
           mp ! i = Some t \<longrightarrow> mp ! i' = Some t' \<longrightarrow> delay t = delay t' \<longrightarrow> i = i'))"

text \<open>The part of the invariant that is about the result, once every target is handled.\<close>

definition matched :: "VoxelData list \<Rightarrow> RebuildTarget option list \<Rightarrow> SimulationVoxel list \<Rightarrow> bool" where
  "matched srt mp vs \<longleftrightarrow>
     length vs = length mp \<and>
     (\<forall>i < length mp. \<forall>t. mp ! i = Some t \<longrightarrow>
        (\<exists>j < length srt. t = mk_target (length srt) (srt ! j) j \<and>
                 sv_color (vs ! i) = setHex (vd_color (srt ! j)))) \<and>
     (\<forall>j < length srt. \<exists>i < length mp. mp ! i = Some (mk_target (length srt) (srt ! j) j)) \<and>
     (\<forall>i < length mp. \<forall>i' < length mp. \<forall>t t'.
        mp ! i = Some t \<longrightarrow> mp ! i' = Some t' \<longrightarrow> delay t = delay t' \<longrightarrow> i = i') \<and>
     length (filter (\<lambda>m. m \<noteq> None) mp) = length srt"

section \<open>Example states\<close>

text \<open>A rebuild under way: one falling voxel, far from its target.\<close>

definition far_voxel :: SimulationVoxel where
  "far_voxel = \<lparr>sv_id = 0, sv_x = 7, sv_y = -40, sv_z = 3, sv_color = setHex 255,
                sv_vx = 1, sv_vy = -2, sv_vz = 1 / 2, sv_rx = 1, sv_ry = 2, sv_rz = 3,
                sv_rvx = 0, sv_rvy = 0, sv_rvz = 0\<rparr>"

definition mid_rebuild :: Engine where
  "mid_rebuild = \<lparr>voxels = [far_voxel],
                  rebuildTargets = [\<lparr>rt_x = 1, rt_y = 2, rt_z = 3, delay = 0, isRubble = False\<rparr>],
                  rebuildStartTime = 0, state = REBUILDING, isProgressive = True,
                  manualProgress = 1 / 4\<rparr>"

text \<open>The engine as constructed: no voxels, \<^verbatim>\<open>STABLE\<close>.\<close>

definition idle :: Engine where
  "idle = \<lparr>voxels = [], rebuildTargets = [], rebuildStartTime = 0, state = STABLE,
           isProgressive = False, manualProgress = 0\<rparr>"

text \<open>A store of a red and a blue voxel, and two target models.\<close>

definition red_voxel :: SimulationVoxel where
  "red_voxel = \<lparr>sv_id = 0, sv_x = 0, sv_y = 0, sv_z = 0, sv_color = setHex 0xff0000,
                sv_vx = 0, sv_vy = 0, sv_vz = 0, sv_rx = 0, sv_ry = 0, sv_rz = 0,
                sv_rvx = 0, sv_rvy = 0, sv_rvz = 0\<rparr>"

definition blue_voxel :: SimulationVoxel where
  "blue_voxel = \<lparr>sv_id = 1, sv_x = 0, sv_y = 1, sv_z = 0, sv_color = setHex 0x0000ff,
                sv_vx = 0, sv_vy = 0, sv_vz = 0, sv_rx = 0, sv_ry = 0, sv_rz = 0,
                sv_rvx = 0, sv_rvy = 0, sv_rvz = 0\<rparr>"

definition two_store :: Engine where
  "two_store = \<lparr>voxels = [red_voxel, blue_voxel],
      rebuildTargets = [\<lparr>rt_x = 0, rt_y = 0, rt_z = 0, delay = 0, isRubble = False\<rparr>,
                        \<lparr>rt_x = 0, rt_y = 1, rt_z = 0, delay = 0, isRubble = False\<rparr>],
      rebuildStartTime = 0, state = STABLE, isProgressive = False, manualProgress = 0\<rparr>"

definition one_target :: "VoxelData list" where
  "one_target = [\<lparr>vd_x = 2, vd_y = 0, vd_z = 5, vd_color = 0x0000ff\<rparr>]"

definition two_targets :: "VoxelData list" where
  "two_targets = [\<lparr>vd_x = 2, vd_y = 3, vd_z = 5, vd_color = 0x0000ff\<rparr>,
                  \<lparr>vd_x = 1, vd_y = 0, vd_z = 1, vd_color = 0x00ff00\<rparr>]"

text \<open>Two voxels off the ground and off centre.\<close>

definition slanted :: "VoxelData list" where
  "slanted = [\<lparr>vd_x = 0, vd_y = 2, vd_z = 0, vd_color = 0xff0000\<rparr>,
              \<lparr>vd_x = 3, vd_y = 5, vd_z = 2, vd_color = 0x0000ff\<rparr>]"



section \<open>finishRebuild and setProgress: properties\<close>

lemma finishRebuild_voxel_at:
  "i < length (voxels s) \<Longrightarrow>
   voxels (finishRebuild FLOOR_Y s) ! i =
     finish_voxel FLOOR_Y (target_at (rebuildTargets s) i) (voxels s ! i)"
  by (simp add: finishRebuild_def nth_enumerate_eq)

lemma finishRebuild_snap_at:
  assumes "i < length (voxels s)" "i < length (rebuildTargets s)"
    "\<not> isRubble (rebuildTargets s ! i)"
  shows "voxels (finishRebuild FLOOR_Y s) ! i =
     (voxels s ! i)\<lparr>sv_x := rt_x (rebuildTargets s ! i), sv_y := rt_y (rebuildTargets s ! i),
                    sv_z := rt_z (rebuildTargets s ! i),
                    sv_rx := 0, sv_ry := 0, sv_rz := 0, sv_vx := 0, sv_vy := 0, sv_vz := 0\<rparr>"
  using assms by (simp add: finishRebuild_voxel_at target_at_def finish_voxel_def)

text \<open>
  C5. \<^verbatim>\<open>finishRebuild()\<close> leaves the engine \<^verbatim>\<open>STABLE\<close>, and every voxel whose target
  exists and is not rubble sits exactly on the target's coordinates with rotation and
  velocity zero, whatever the state and the positions were before. The store keeps its
  length and the targets are not touched.
\<close>

theorem finishRebuild_snaps:
  "state (finishRebuild FLOOR_Y s) = STABLE \<and>
   length (voxels (finishRebuild FLOOR_Y s)) = length (voxels s) \<and>
   rebuildTargets (finishRebuild FLOOR_Y s) = rebuildTargets s \<and>
   (\<forall>i < length (voxels s). i < length (rebuildTargets s) \<longrightarrow>
      \<not> isRubble (rebuildTargets s ! i) \<longrightarrow>
      sv_x (voxels (finishRebuild FLOOR_Y s) ! i) = rt_x (rebuildTargets s ! i) \<and>
      sv_y (voxels (finishRebuild FLOOR_Y s) ! i) = rt_y (rebuildTargets s ! i) \<and>
      sv_z (voxels (finishRebuild FLOOR_Y s) ! i) = rt_z (rebuildTargets s ! i) \<and>
      sv_rx (voxels (finishRebuild FLOOR_Y s) ! i) = 0 \<and>
      sv_ry (voxels (finishRebuild FLOOR_Y s) ! i) = 0 \<and>
      sv_rz (voxels (finishRebuild FLOOR_Y s) ! i) = 0 \<and>
      sv_vx (voxels (finishRebuild FLOOR_Y s) ! i) = 0 \<and>
      sv_vy (voxels (finishRebuild FLOOR_Y s) ! i) = 0 \<and>
      sv_vz (voxels (finishRebuild FLOOR_Y s) ! i) = 0)"
proof -
  have a: "state (finishRebuild FLOOR_Y s) = STABLE"
    by (simp add: finishRebuild_def)
  have b: "length (voxels (finishRebuild FLOOR_Y s)) = length (voxels s)"
    by (simp add: finishRebuild_def)
  have c: "rebuildTargets (finishRebuild FLOOR_Y s) = rebuildTargets s"
    by (simp add: finishRebuild_def)
  show ?thesis using a b c
    by (simp add: finishRebuild_voxel_at target_at_def finish_voxel_def)
qed

theorem finishRebuild_snaps_witness:
  "state (finishRebuild (-10) mid_rebuild) = STABLE \<and>
   sv_x (voxels (finishRebuild (-10) mid_rebuild) ! 0) = 1 \<and>
   sv_y (voxels (finishRebuild (-10) mid_rebuild) ! 0) = 2 \<and>
   sv_z (voxels (finishRebuild (-10) mid_rebuild) ! 0) = 3 \<and>
   sv_vy (voxels (finishRebuild (-10) mid_rebuild) ! 0) = 0"
  using finishRebuild_snaps [where FLOOR_Y = "-10" and s = mid_rebuild]
  by (simp add: mid_rebuild_def)

text \<open>
  C6. In \<^verbatim>\<open>REBUILDING\<close> under progressive control, \<^verbatim>\<open>setProgress(p)\<close> with
  \<open>p \<ge> 1\<close> returns the very engine that \<^verbatim>\<open>finishRebuild()\<close> returns from the same
  point: that engine is \<^verbatim>\<open>STABLE\<close>, and every voxel whose target exists and is not
  rubble sits exactly on the target's coordinates with rotation and velocity zero.
\<close>

theorem setProgress_complete:
  "1 \<le> p \<Longrightarrow> state s = REBUILDING \<Longrightarrow> isProgressive s \<Longrightarrow>
   setProgress FLOOR_Y p s = finishRebuild FLOOR_Y s \<and>
   state (setProgress FLOOR_Y p s) = STABLE \<and>
   (\<forall>i < length (voxels s). i < length (rebuildTargets s) \<longrightarrow>
      \<not> isRubble (rebuildTargets s ! i) \<longrightarrow>
      sv_x (voxels (setProgress FLOOR_Y p s) ! i) = rt_x (rebuildTargets s ! i) \<and>
      sv_y (voxels (setProgress FLOOR_Y p s) ! i) = rt_y (rebuildTargets s ! i) \<and>
      sv_z (voxels (setProgress FLOOR_Y p s) ! i) = rt_z (rebuildTargets s ! i) \<and>
      sv_rx (voxels (setProgress FLOOR_Y p s) ! i) = 0 \<and>
      sv_ry (voxels (setProgress FLOOR_Y p s) ! i) = 0 \<and>
      sv_rz (voxels (setProgress FLOOR_Y p s) ! i) = 0 \<and>
      sv_vx (voxels (setProgress FLOOR_Y p s) ! i) = 0 \<and>
      sv_vy (voxels (setProgress FLOOR_Y p s) ! i) = 0 \<and>
      sv_vz (voxels (setProgress FLOOR_Y p s) ! i) = 0)"
proof -
  assume h: "1 \<le> p" "state s = REBUILDING" "isProgressive s"
  have e: "setProgress FLOOR_Y p s = finishRebuild FLOOR_Y s"
    using h by (simp add: setProgress_def finishRebuild_def)
  have st: "state (finishRebuild FLOOR_Y s) = STABLE"
    by (simp add: finishRebuild_def)
  have snap: "\<forall>i < length (voxels s). i < length (rebuildTargets s) \<longrightarrow>
      \<not> isRubble (rebuildTargets s ! i) \<longrightarrow>
      sv_x (voxels (finishRebuild FLOOR_Y s) ! i) = rt_x (rebuildTargets s ! i) \<and>
      sv_y (voxels (finishRebuild FLOOR_Y s) ! i) = rt_y (rebuildTargets s ! i) \<and>
      sv_z (voxels (finishRebuild FLOOR_Y s) ! i) = rt_z (rebuildTargets s ! i) \<and>
      sv_rx (voxels (finishRebuild FLOOR_Y s) ! i) = 0 \<and>
      sv_ry (voxels (finishRebuild FLOOR_Y s) ! i) = 0 \<and>
      sv_rz (voxels (finishRebuild FLOOR_Y s) ! i) = 0 \<and>
      sv_vx (voxels (finishRebuild FLOOR_Y s) ! i) = 0 \<and>
      sv_vy (voxels (finishRebuild FLOOR_Y s) ! i) = 0 \<and>
      sv_vz (voxels (finishRebuild FLOOR_Y s) ! i) = 0"
    by (simp add: finishRebuild_snap_at)
  from st snap show ?thesis unfolding e by (intro conjI refl)
qed

theorem setProgress_complete_witness:
  "(1::real) \<le> 3 / 2 \<and> state mid_rebuild = REBUILDING \<and> isProgressive mid_rebuild \<and>
   0 < length (voxels mid_rebuild) \<and> 0 < length (rebuildTargets mid_rebuild) \<and>
   \<not> isRubble (rebuildTargets mid_rebuild ! 0) \<and>
   sv_x (voxels mid_rebuild ! 0) = 7 \<and> sv_y (voxels mid_rebuild ! 0) = -40 \<and>
   sv_vy (voxels mid_rebuild ! 0) = -2 \<and> sv_rx (voxels mid_rebuild ! 0) = 1 \<and>
   setProgress (-10) (3 / 2) mid_rebuild = finishRebuild (-10) mid_rebuild \<and>
   state (setProgress (-10) (3 / 2) mid_rebuild) = STABLE \<and>
   sv_x (voxels (setProgress (-10) (3 / 2) mid_rebuild) ! 0) = 1 \<and>
   sv_y (voxels (setProgress (-10) (3 / 2) mid_rebuild) ! 0) = 2 \<and>
   sv_z (voxels (setProgress (-10) (3 / 2) mid_rebuild) ! 0) = 3 \<and>
   sv_rx (voxels (setProgress (-10) (3 / 2) mid_rebuild) ! 0) = 0 \<and>
   sv_vy (voxels (setProgress (-10) (3 / 2) mid_rebuild) ! 0) = 0"
proof -
  have h: "(1::real) \<le> 3 / 2" "state mid_rebuild = REBUILDING" "isProgressive mid_rebuild"
    by (simp_all add: mid_rebuild_def)
  have i: "0 < length (voxels mid_rebuild)" "0 < length (rebuildTargets mid_rebuild)"
    "\<not> isRubble (rebuildTargets mid_rebuild ! 0)"
    by (simp_all add: mid_rebuild_def)
  have t: "rt_x (rebuildTargets mid_rebuild ! 0) = 1" "rt_y (rebuildTargets mid_rebuild ! 0) = 2"
    "rt_z (rebuildTargets mid_rebuild ! 0) = 3"
    by (simp_all add: mid_rebuild_def)
  have b: "sv_x (voxels mid_rebuild ! 0) = 7" "sv_y (voxels mid_rebuild ! 0) = -40"
    "sv_vy (voxels mid_rebuild ! 0) = -2" "sv_rx (voxels mid_rebuild ! 0) = 1"
    by (simp_all add: mid_rebuild_def far_voxel_def)
  note T = setProgress_complete [OF h, where FLOOR_Y = "-10"]
  from T have e: "setProgress (-10) (3 / 2) mid_rebuild = finishRebuild (-10) mid_rebuild"
    and st: "state (setProgress (-10) (3 / 2) mid_rebuild) = STABLE"
    by blast+
  from T i have "sv_x (voxels (setProgress (-10) (3 / 2) mid_rebuild) ! 0) = rt_x (rebuildTargets mid_rebuild ! 0) \<and>
      sv_y (voxels (setProgress (-10) (3 / 2) mid_rebuild) ! 0) = rt_y (rebuildTargets mid_rebuild ! 0) \<and>
      sv_z (voxels (setProgress (-10) (3 / 2) mid_rebuild) ! 0) = rt_z (rebuildTargets mid_rebuild ! 0) \<and>
      sv_rx (voxels (setProgress (-10) (3 / 2) mid_rebuild) ! 0) = 0 \<and>
      sv_vy (voxels (setProgress (-10) (3 / 2) mid_rebuild) ! 0) = 0"
    by blast
  then have s: "sv_x (voxels (setProgress (-10) (3 / 2) mid_rebuild) ! 0) = 1 \<and>
      sv_y (voxels (setProgress (-10) (3 / 2) mid_rebuild) ! 0) = 2 \<and>
      sv_z (voxels (setProgress (-10) (3 / 2) mid_rebuild) ! 0) = 3 \<and>
      sv_rx (voxels (setProgress (-10) (3 / 2) mid_rebuild) ! 0) = 0 \<and>
      sv_vy (voxels (setProgress (-10) (3 / 2) mid_rebuild) ! 0) = 0"
    unfolding t .
  from h i b e st s show ?thesis by (intro conjI) blast+
qed

text \<open>
  C4, as stated: \<^verbatim>\<open>setProgress\<close> in \<^verbatim>\<open>STABLE\<close> leaves every field unchanged. It does
  not: the progress value is stored before the state is looked at.
\<close>

theorem setProgress_noop_counterexample:
  "state idle = STABLE \<and> setProgress (-10) (1 / 2) idle \<noteq> idle"
  by (simp add: setProgress_def idle_def)

text \<open>
  C4, amended. Outside \<^verbatim>\<open>REBUILDING\<close> (so in \<^verbatim>\<open>STABLE\<close> and in \<^verbatim>\<open>DISMANTLING\<close>),
  \<^verbatim>\<open>setProgress(p)\<close> stores \<open>p\<close> in \<^verbatim>\<open>manualProgress\<close> and changes nothing else:
  store, targets, state, start time and the progressive flag stay as they were.
\<close>

theorem setProgress_gated:
  "state s \<noteq> REBUILDING \<Longrightarrow> setProgress FLOOR_Y p s = s\<lparr>manualProgress := p\<rparr>"
  by (simp add: setProgress_def)

theorem setProgress_gated_witness:
  "state idle \<noteq> REBUILDING \<and> setProgress (-10) (1 / 2) idle = idle\<lparr>manualProgress := 1 / 2\<rparr>"
  using setProgress_gated [where s = idle and FLOOR_Y = "-10" and p = "1 / 2"]
  by (simp add: idle_def)

section \<open>The scan finds a free voxel\<close>

lemma col_r_bounds: "0 \<le> col_r c \<and> col_r c \<le> 1"
proof -
  have gen: "\<And>a::real. 0 \<le> a \<Longrightarrow> a \<le> 255 \<Longrightarrow> 0 \<le> a / 255 \<and> a / 255 \<le> 1"
    by simp
  have "unat (chan_r c) < 2 ^ 8"
    using unsigned_less [of "chan_r c", where 'a = nat] by simp
  then have "unat (chan_r c) \<le> 255" by simp
  then have "real (unat (chan_r c)) \<le> real 255"
    by (simp only: of_nat_le_iff)
  then have le: "real (unat (chan_r c)) \<le> 255"
    by (simp only: of_nat_numeral)
  have ge: "0 \<le> real (unat (chan_r c))"
    by (rule of_nat_0_le_iff)
  show ?thesis unfolding col_r_def using ge le by (rule gen)
qed

lemma col_dist_small: "\<bar>col_r c - col_r c'\<bar> < 9999"
  using col_r_bounds [of c] col_r_bounds [of c'] by linarith

lemma scan_keeps: "bestIdx \<noteq> None \<Longrightarrow> scan target av i bestDist bestIdx \<noteq> None"
  by (induction av arbitrary: i bestDist bestIdx) (auto simp: Let_def)

lemma scan_finds:
  "\<exists>a \<in> set av. \<not> av_taken a \<and> \<bar>col_r (av_color a) - col_r (setHex (vd_color target))\<bar> < bestDist
   \<Longrightarrow> scan target av i bestDist bestIdx \<noteq> None"
proof (induction av arbitrary: i bestDist bestIdx)
  case Nil
  then show ?case by simp
next
  case (Cons a rest)
  show ?case
  proof (cases "av_taken a")
    case True
    with Cons.prems have "\<exists>a \<in> set rest. \<not> av_taken a \<and>
        \<bar>col_r (av_color a) - col_r (setHex (vd_color target))\<bar> < bestDist"
      by auto
    from Cons.IH [OF this] True show ?thesis by simp
  next
    case False
    show ?thesis
    proof (cases "\<bar>col_r (av_color a) - col_r (setHex (vd_color target))\<bar> < bestDist")
      case True
      with False scan_keeps [of "Some i" target rest "Suc i"] show ?thesis
        by (simp add: Let_def)
    next
      case far: False
      with Cons.prems have "\<exists>a \<in> set rest. \<not> av_taken a \<and>
          \<bar>col_r (av_color a) - col_r (setHex (vd_color target))\<bar> < bestDist"
        by auto
      from Cons.IH [OF this] False far show ?thesis by (simp add: Let_def)
    qed
  qed
qed

lemma scan_result:
  "scan target av i bestDist bestIdx = Some r \<Longrightarrow>
   bestIdx = Some r \<or> (i \<le> r \<and> r < i + length av \<and> \<not> av_taken (av ! (r - i)))"
proof (induction av arbitrary: i bestDist bestIdx)
  case Nil
  then show ?case by simp
next
  case (Cons a rest)
  let ?d = "\<bar>col_r (av_color a) - col_r (setHex (vd_color target))\<bar>"
  have shift: "\<And>q. Suc i \<le> r \<and> r < Suc i + length rest \<and> \<not> av_taken (rest ! (r - Suc i))
      \<Longrightarrow> i \<le> r \<and> r < i + length (a # rest) \<and> \<not> av_taken ((a # rest) ! (r - i))"
  proof -
    assume h: "Suc i \<le> r \<and> r < Suc i + length rest \<and> \<not> av_taken (rest ! (r - Suc i))"
    then have "r - i = Suc (r - Suc i)" by linarith
    with h show "i \<le> r \<and> r < i + length (a # rest) \<and> \<not> av_taken ((a # rest) ! (r - i))"
      by simp
  qed
  show ?case
  proof (cases "av_taken a")
    case True
    with Cons.prems have "scan target rest (Suc i) bestDist bestIdx = Some r" by simp
    from Cons.IH [OF this] shift show ?thesis by blast
  next
    case False
    show ?thesis
    proof (cases "?d < bestDist")
      case far: False
      with False Cons.prems have "scan target rest (Suc i) bestDist bestIdx = Some r"
        by (simp add: Let_def)
      from Cons.IH [OF this] shift show ?thesis by blast
    next
      case True
      show ?thesis
      proof (cases "?d < 1 / 100")
        case near: True
        with True False Cons.prems have "r = i" by (simp add: Let_def)
        with False show ?thesis by simp
      next
        case nonear: False
        with True False Cons.prems have "scan target rest (Suc i) ?d (Some i) = Some r"
          by (simp add: Let_def)
        from Cons.IH [OF this] have
          "r = i \<or> (Suc i \<le> r \<and> r < Suc i + length rest \<and> \<not> av_taken (rest ! (r - Suc i)))"
          by auto
        then show ?thesis
        proof
          assume "r = i"
          with False show ?thesis by simp
        next
          assume "Suc i \<le> r \<and> r < Suc i + length rest \<and> \<not> av_taken (rest ! (r - Suc i))"
          from shift [OF this] show ?thesis by blast
        qed
      qed
    qed
  qed
qed

lemma scan_initial:
  assumes "\<exists>a \<in> set av. \<not> av_taken a"
  shows "\<exists>b. scan target av 0 9999 None = Some b \<and> b < length av \<and> \<not> av_taken (av ! b)"
proof -
  from assms have "\<exists>a \<in> set av. \<not> av_taken a \<and>
      \<bar>col_r (av_color a) - col_r (setHex (vd_color target))\<bar> < 9999"
    using col_dist_small by blast
  from scan_finds [OF this] obtain b where b: "scan target av 0 9999 None = Some b"
    by blast
  from scan_result [OF b] have "b < length av \<and> \<not> av_taken (av ! b)" by simp
  with b show ?thesis by blast
qed

section \<open>The assignment loop keeps its invariant\<close>

lemma filter_length_update:
  "i < length xs \<Longrightarrow> \<not> P (xs ! i) \<Longrightarrow> P y \<Longrightarrow>
   length (filter P (xs[i := y])) = Suc (length (filter P xs))"
proof (induction xs arbitrary: i)
  case Nil
  then show ?case by simp
next
  case (Cons x xs)
  then show ?case by (cases i) auto
qed

lemma untaken_exists:
  assumes "length (filter av_taken av) < length av"
  shows "\<exists>a \<in> set av. \<not> av_taken a"
proof (rule ccontr)
  assume "\<not> (\<exists>a \<in> set av. \<not> av_taken a)"
  then have "filter av_taken av = av" by (simp add: filter_id_conv)
  with assms show False by simp
qed

lemma filter_length_pointwise:
  "length xs = length ys \<Longrightarrow> \<forall>i < length ys. P (xs ! i) \<longleftrightarrow> Q (ys ! i) \<Longrightarrow>
   length (filter P xs) = length (filter Q ys)"
proof (induction xs ys rule: list_induct2)
  case Nil
  then show ?case by simp
next
  case (Cons x xs y ys)
  from Cons.prems have head: "P x \<longleftrightarrow> Q y" by force
  from Cons.prems have "\<forall>i < length ys. P (xs ! i) \<longleftrightarrow> Q (ys ! i)" by force
  from Cons.IH [OF this] head show ?case by simp
qed

lemma delay_mk_target [simp]: "delay (mk_target n t j) = real j / real n"
  by (simp add: mk_target_def)

lemma rank_delay_inj:
  assumes "0 < n" "real j / real n = real j' / real n"
  shows "j = j'"
proof -
  from assms have "real j = real j'" by simp
  then show ?thesis by simp
qed

lemma assign_target_inv:
  assumes inv: "assign_inv srt k st" and k: "k < length srt"
  shows "assign_inv srt (Suc k) (assign_target (length srt) (srt ! k) k st)"
proof -
  obtain av mp vs where st: "st = (av, mp, vs)" by (cases st)
  let ?n = "length srt"
  let ?c = "setHex (vd_color (srt ! k))"
  let ?t = "mk_target ?n (srt ! k) k"
  from inv st have len: "length av = length mp" "length vs = length mp" "?n \<le> length mp"
    and idx: "\<forall>i < length mp. av_index (av ! i) = i"
    and tk: "\<forall>i < length mp. av_taken (av ! i) \<longleftrightarrow> mp ! i \<noteq> None"
    and cnt: "length (filter av_taken av) = k"
    and mt: "\<forall>i < length mp. \<forall>t. mp ! i = Some t \<longrightarrow>
           (\<exists>j < k. t = mk_target ?n (srt ! j) j \<and> sv_color (vs ! i) = setHex (vd_color (srt ! j)))"
    and ex: "\<forall>j < k. \<exists>i < length mp. mp ! i = Some (mk_target ?n (srt ! j) j)"
    and inj: "\<forall>i < length mp. \<forall>i' < length mp. \<forall>t t'.
           mp ! i = Some t \<longrightarrow> mp ! i' = Some t' \<longrightarrow> delay t = delay t' \<longrightarrow> i = i'"
    by (simp_all add: assign_inv_def)
  from cnt k len have "length (filter av_taken av) < length av" by simp
  from scan_initial [OF untaken_exists [OF this], of "srt ! k"]
  obtain b where b: "scan (srt ! k) av 0 9999 None = Some b" "b < length av" "\<not> av_taken (av ! b)"
    by blast
  from b len have bl: "b < length mp" by simp
  from idx bl have vIdx: "av_index (av ! b) = b" by simp
  from tk bl b(3) have free: "mp ! b = None" by simp
  let ?av = "av[b := (av ! b)\<lparr>av_taken := True, av_color := ?c\<rparr>]"
  let ?mp = "mp[b := Some ?t]"
  let ?vs = "vs[b := (vs ! b)\<lparr>sv_color := ?c\<rparr>]"
  have res: "assign_target ?n (srt ! k) k st = (?av, ?mp, ?vs)"
    using b vIdx by (simp add: assign_target_def st Let_def)
  have c1: "length ?av = length ?mp \<and> length ?vs = length ?mp \<and> Suc k \<le> ?n \<and> ?n \<le> length ?mp"
    using len k by simp
  have c2: "\<forall>i < length ?mp. av_index (?av ! i) = i"
    using idx len bl by (auto simp: nth_list_update)
  have c3: "\<forall>i < length ?mp. av_taken (?av ! i) \<longleftrightarrow> ?mp ! i \<noteq> None"
    using tk len bl by (auto simp: nth_list_update)
  have c4: "length (filter av_taken ?av) = Suc k"
    using filter_length_update [of b av av_taken "(av ! b)\<lparr>av_taken := True, av_color := ?c\<rparr>"] b cnt
    by simp
  have c5: "\<forall>i < length ?mp. \<forall>t. ?mp ! i = Some t \<longrightarrow>
           (\<exists>j < Suc k. t = mk_target ?n (srt ! j) j \<and> sv_color (?vs ! i) = setHex (vd_color (srt ! j)))"
  proof (intro allI impI)
    fix i t assume i: "i < length ?mp" and t: "?mp ! i = Some t"
    show "\<exists>j < Suc k. t = mk_target ?n (srt ! j) j \<and> sv_color (?vs ! i) = setHex (vd_color (srt ! j))"
    proof (cases "i = b")
      case True
      with t bl len have "t = ?t \<and> sv_color (?vs ! i) = ?c" by simp
      then show ?thesis by blast
    next
      case False
      with t i have "mp ! i = Some t" "i < length mp" by simp_all
      with mt obtain j where "j < k" "t = mk_target ?n (srt ! j) j"
          "sv_color (vs ! i) = setHex (vd_color (srt ! j))" by blast
      with False show ?thesis using less_Suc_eq by auto
    qed
  qed
  have c6: "\<forall>j < Suc k. \<exists>i < length ?mp. ?mp ! i = Some (mk_target ?n (srt ! j) j)"
  proof (intro allI impI)
    fix j assume j: "j < Suc k"
    show "\<exists>i < length ?mp. ?mp ! i = Some (mk_target ?n (srt ! j) j)"
    proof (cases "j = k")
      case True
      with bl show ?thesis by auto
    next
      case False
      with j have "j < k" by simp
      with ex obtain i where i: "i < length mp" "mp ! i = Some (mk_target ?n (srt ! j) j)" by blast
      with free have "i \<noteq> b" by auto
      with i show ?thesis by auto
    qed
  qed
  have fresh: "\<And>i t. i < length mp \<Longrightarrow> mp ! i = Some t \<Longrightarrow> delay t \<noteq> delay ?t"
  proof -
    fix i t assume "i < length mp" "mp ! i = Some t"
    with mt obtain j where j: "j < k" "t = mk_target ?n (srt ! j) j" by blast
    from k have "0 < ?n" by (cases srt) simp_all
    from rank_delay_inj [OF this] j(1) have "real j / real ?n \<noteq> real k / real ?n" by blast
    with j(2) show "delay t \<noteq> delay ?t" by simp
  qed
  have c7: "\<forall>i < length ?mp. \<forall>i' < length ?mp. \<forall>t t'.
           ?mp ! i = Some t \<longrightarrow> ?mp ! i' = Some t' \<longrightarrow> delay t = delay t' \<longrightarrow> i = i'"
  proof (intro allI impI)
    fix i i' t t'
    assume h: "i < length ?mp" "i' < length ?mp" "?mp ! i = Some t" "?mp ! i' = Some t'"
      "delay t = delay t'"
    show "i = i'"
    proof (cases "i = b")
      case ib: True
      show ?thesis
      proof (cases "i' = b")
        case True
        with ib show ?thesis by simp
      next
        case False
        with h have "i' < length mp" "mp ! i' = Some t'" by simp_all
        from fresh [OF this] have ne: "delay t' \<noteq> delay ?t" .
        from ib h(3) bl have "t = ?t" by simp
        with h(5) ne show ?thesis by simp
      qed
    next
      case nib: False
      with h have old: "i < length mp" "mp ! i = Some t" by simp_all
      show ?thesis
      proof (cases "i' = b")
        case True
        with h(4) bl have "t' = ?t" by simp
        with fresh [OF old] h(5) show ?thesis by simp
      next
        case False
        with h have "i' < length mp" "mp ! i' = Some t'" by simp_all
        with inj old h(5) show ?thesis by blast
      qed
    qed
  qed
  show ?thesis
    unfolding res assign_inv_def using c1 c2 c3 c4 c5 c6 c7 by simp
qed

lemma assign_all_inv:
  "assign_inv srt k st \<Longrightarrow> ts = drop k srt \<Longrightarrow>
   assign_inv srt (length srt) (assign_all (length srt) ts k st)"
proof (induction ts arbitrary: k st)
  case Nil
  then have "length srt \<le> k" by simp
  moreover from Nil.prems(1) have "k \<le> length srt"
    by (cases st) (simp add: assign_inv_def)
  ultimately have "k = length srt" by simp
  with Nil.prems(1) show ?case by simp
next
  case (Cons t rest)
  from Cons.prems(2) have k: "k < length srt"
    by (metis drop_all list.distinct(1) not_le)
  from Cons.prems(2) k have t: "t = srt ! k"
    by (metis Cons_nth_drop_Suc list.inject)
  from Cons.prems(2) k have rest: "rest = drop (Suc k) srt"
    by (metis Cons_nth_drop_Suc list.inject)
  from assign_target_inv [OF Cons.prems(1) k]
  have "assign_inv srt (Suc k) (assign_target (length srt) t k st)" by (simp add: t)
  from Cons.IH [OF this rest] show ?case by simp
qed

lemma assign_inv_initial:
  assumes "length srt \<le> length vs"
  shows "assign_inv srt 0 (initial_available vs, replicate (length vs) None, vs)"
proof -
  have taken: "\<forall>a \<in> set (initial_available vs). \<not> av_taken a"
    by (auto simp: initial_available_def)
  then have "filter av_taken (initial_available vs) = []"
    by (simp add: filter_empty_conv)
  moreover have "length (initial_available vs) = length vs"
    by (simp add: initial_available_def)
  moreover have "\<forall>i < length vs. av_index (initial_available vs ! i) = i"
    by (simp add: initial_available_def nth_enumerate_eq)
  moreover have "\<forall>i < length vs. \<not> av_taken (initial_available vs ! i)"
    by (simp add: initial_available_def nth_enumerate_eq)
  ultimately show ?thesis using assms
    by (simp add: assign_inv_def)
qed

lemma assign_target_length:
  "length (fst (snd (assign_target n t k st))) = length (fst (snd st))"
  by (cases st) (simp add: assign_target_def Let_def split: option.splits)

lemma assign_all_length:
  "length (fst (snd (assign_all n ts k st))) = length (fst (snd st))"
  by (induction ts arbitrary: k st) (simp_all add: assign_target_length)

lemma assign_inv_matched:
  assumes "assign_inv srt (length srt) (av, mp, vs)"
  shows "matched srt mp vs"
proof -
  from assms have len: "length av = length mp"
    and tk: "\<forall>i < length mp. av_taken (av ! i) \<longleftrightarrow> mp ! i \<noteq> None"
    and cnt: "length (filter av_taken av) = length srt"
    by (simp_all add: assign_inv_def)
  from filter_length_pointwise [OF len, of av_taken "\<lambda>m. m \<noteq> None"] tk cnt
  have "length (filter (\<lambda>m. m \<noteq> None) mp) = length srt" by simp
  with assms show ?thesis by (simp add: assign_inv_def matched_def)
qed

lemma rebuild_char:
  "\<exists>mp. matched (sort_key vd_y tm) mp (voxels (rebuild FLOOR_Y now tm progressive s)) \<and>
        length mp = max (length (voxels s)) (length tm) \<and>
        rebuildTargets (rebuild FLOOR_Y now tm progressive s) = map (fill_rubble FLOOR_Y) mp"
proof -
  let ?s1 = "grow tm (s\<lparr>state := REBUILDING, isProgressive := progressive\<rparr>)"
  let ?srt = "sort_key vd_y tm"
  let ?st0 = "(initial_available (voxels ?s1), replicate (length (voxels ?s1)) None, voxels ?s1)"
  have L: "length (voxels ?s1) = max (length (voxels s)) (length tm)"
    by (simp add: grow_def createVoxels_def)
  then have "length ?srt \<le> length (voxels ?s1)" by simp
  from assign_all_inv [OF assign_inv_initial [OF this], of ?srt]
  have inv: "assign_inv ?srt (length ?srt) (assign_all (length ?srt) ?srt 0 ?st0)" by simp
  obtain av mp vs where r: "assign_all (length ?srt) ?srt 0 ?st0 = (av, mp, vs)"
    by (cases "assign_all (length ?srt) ?srt 0 ?st0")
  from inv r have m: "matched ?srt mp vs"
    using assign_inv_matched by simp
  from assign_all_length [of "length ?srt" ?srt 0 ?st0] r
  have "length mp = length (voxels ?s1)" by simp
  with L have lm: "length mp = max (length (voxels s)) (length tm)" by simp
  have v: "voxels (rebuild FLOOR_Y now tm progressive s) = vs"
    using r by (simp add: rebuild_def Let_def)
  have t: "rebuildTargets (rebuild FLOOR_Y now tm progressive s) = map (fill_rubble FLOOR_Y) mp"
    using r by (simp add: rebuild_def Let_def)
  from m lm v t show ?thesis by blast
qed

lemma matched_Some:
  assumes "matched srt mp vs" "i < length mp" "mp ! i = Some t"
  shows "\<exists>j < length srt. t = mk_target (length srt) (srt ! j) j \<and>
           sv_color (vs ! i) = setHex (vd_color (srt ! j))"
  using assms unfolding matched_def by blast

lemma matched_not_rubble:
  assumes "matched srt mp vs" "i < length mp"
  shows "isRubble (fill_rubble FLOOR_Y (mp ! i)) \<longleftrightarrow> mp ! i = None"
proof (cases "mp ! i")
  case None
  then show ?thesis by (simp add: fill_rubble_def)
next
  case (Some t)
  from matched_Some [OF assms Some] have "\<not> isRubble t" by (auto simp: mk_target_def)
  with Some show ?thesis by (simp add: fill_rubble_def)
qed

lemma matched_target:
  assumes "matched srt mp vs" "i < length mp" "\<not> isRubble (fill_rubble FLOOR_Y (mp ! i))"
  shows "mp ! i = Some (fill_rubble FLOOR_Y (mp ! i))"
proof -
  from matched_not_rubble [OF assms(1,2)] assms(3) obtain t where "mp ! i = Some t" by auto
  then show ?thesis by (simp add: fill_rubble_def)
qed

lemma matched_inj:
  "matched srt mp vs \<Longrightarrow> \<forall>i < length mp. \<forall>i' < length mp. \<forall>t t'.
        mp ! i = Some t \<longrightarrow> mp ! i' = Some t' \<longrightarrow> delay t = delay t' \<longrightarrow> i = i'"
  unfolding matched_def by (elim conjE)

lemma matched_ex:
  "matched srt mp vs \<Longrightarrow>
   \<forall>j < length srt. \<exists>i < length mp. mp ! i = Some (mk_target (length srt) (srt ! j) j)"
  unfolding matched_def by (elim conjE)

lemma matched_cnt:
  "matched srt mp vs \<Longrightarrow> length (filter (\<lambda>m. m \<noteq> None) mp) = length srt"
  unfolding matched_def by (elim conjE)

lemma matched_len: "matched srt mp vs \<Longrightarrow> length vs = length mp"
  unfolding matched_def by (elim conjE)

lemma matched_rubble_count:
  assumes m: "matched srt mp vs"
  shows "length (filter isRubble (map (fill_rubble FLOOR_Y) mp)) = length mp - length srt"
proof -
  have "\<forall>x \<in> set mp. (isRubble \<circ> fill_rubble FLOOR_Y) x \<longleftrightarrow> x = None"
  proof
    fix x assume "x \<in> set mp"
    then obtain i where i: "i < length mp" "mp ! i = x" by (auto simp: in_set_conv_nth)
    from matched_not_rubble [OF m i(1), of FLOOR_Y] i(2)
    show "(isRubble \<circ> fill_rubble FLOOR_Y) x \<longleftrightarrow> x = None" by simp
  qed
  then have "filter (isRubble \<circ> fill_rubble FLOOR_Y) mp = filter (\<lambda>x. x = None) mp"
    by (intro filter_cong) simp_all
  then have "length (filter isRubble (map (fill_rubble FLOOR_Y) mp)) = length (filter (\<lambda>x. x = None) mp)"
    by (simp add: filter_map)
  moreover have "length (filter (\<lambda>x. x \<noteq> None) mp) + length (filter (\<lambda>x. \<not> x \<noteq> None) mp) = length mp"
    by (rule sum_length_filter_compl)
  moreover from matched_cnt [OF m] have "length (filter (\<lambda>x. x \<noteq> None) mp) = length srt" .
  ultimately show ?thesis by simp
qed

section \<open>rebuild on the example stores\<close>

lemma hex_blue: "setHex 0x0000ff = Color 0 0 255"
  by (simp add: setHex_def)

lemma hex_red: "setHex 0xff0000 = Color 255 0 0"
  by (simp add: setHex_def)

lemma hex_green: "setHex 0x00ff00 = Color 0 255 0"
  by (simp add: setHex_def)

lemma r_blue: "col_r (Color 0 0 255) = 0"
  by (simp add: col_r_def)

lemma r_red: "col_r (Color 255 0 0) = 1"
  by (simp add: col_r_def)

lemma r_green: "col_r (Color 0 255 0) = 0"
  by (simp add: col_r_def)

lemmas example_colors = hex_blue hex_red hex_green r_blue r_red r_green

lemma available_two_store:
  "initial_available (voxels two_store) =
     [\<lparr>av_index = 0, av_color = Color 255 0 0, av_taken = False\<rparr>,
      \<lparr>av_index = 1, av_color = Color 0 0 255, av_taken = False\<rparr>]"
  by (simp add: initial_available_def two_store_def red_voxel_def blue_voxel_def example_colors)

lemma grow_same:
  "length tm \<le> length (voxels s) \<Longrightarrow> grow tm s = s"
  by (simp add: grow_def)

lemma assign_blue_first:
  "assign_target n \<lparr>vd_x = 2, vd_y = 0, vd_z = 5, vd_color = 0x0000ff\<rparr> 0
     ([\<lparr>av_index = 0, av_color = Color 255 0 0, av_taken = False\<rparr>,
       \<lparr>av_index = 1, av_color = Color 0 0 255, av_taken = False\<rparr>],
      [None, None], [red_voxel, blue_voxel])
   = ([\<lparr>av_index = 0, av_color = Color 255 0 0, av_taken = False\<rparr>,
       \<lparr>av_index = 1, av_color = Color 0 0 255, av_taken = True\<rparr>],
      [None, Some \<lparr>rt_x = 2, rt_y = 0, rt_z = 5, delay = 0, isRubble = False\<rparr>],
      [red_voxel, blue_voxel])"
proof -
  have "scan \<lparr>vd_x = 2, vd_y = 0, vd_z = 5, vd_color = 0x0000ff\<rparr>
     [\<lparr>av_index = 0, av_color = Color 255 0 0, av_taken = False\<rparr>,
      \<lparr>av_index = 1, av_color = Color 0 0 255, av_taken = False\<rparr>] 0 9999 None = Some 1"
    by (simp add: example_colors)
  then show ?thesis
    by (simp add: assign_target_def mk_target_def blue_voxel_def example_colors)
qed

lemma rebuild_shrink_example:
  "rebuild (-10) 7 one_target True two_store =
     \<lparr>voxels = [red_voxel, blue_voxel],
      rebuildTargets = [\<lparr>rt_x = 0, rt_y = -310, rt_z = 0, delay = 2, isRubble = True\<rparr>,
                        \<lparr>rt_x = 2, rt_y = 0, rt_z = 5, delay = 0, isRubble = False\<rparr>],
      rebuildStartTime = 7, state = REBUILDING, isProgressive = True, manualProgress = 0\<rparr>"
proof -
  have g: "grow one_target (two_store\<lparr>state := REBUILDING, isProgressive := True\<rparr>)
      = two_store\<lparr>state := REBUILDING, isProgressive := True\<rparr>"
    by (rule grow_same) (simp add: one_target_def two_store_def)
  have v: "voxels (two_store\<lparr>state := REBUILDING, isProgressive := True\<rparr>) = voxels two_store"
    by simp
  have srt: "sort_key vd_y one_target = one_target"
    by (simp add: one_target_def)
  have a: "assign_all (length one_target) one_target 0
       (initial_available (voxels two_store), replicate (length (voxels two_store)) None,
        voxels two_store)
     = ([\<lparr>av_index = 0, av_color = Color 255 0 0, av_taken = False\<rparr>,
         \<lparr>av_index = 1, av_color = Color 0 0 255, av_taken = True\<rparr>],
        [None, Some \<lparr>rt_x = 2, rt_y = 0, rt_z = 5, delay = 0, isRubble = False\<rparr>],
        [red_voxel, blue_voxel])"
    unfolding available_two_store
    using assign_blue_first [of 1]
    by (simp add: one_target_def two_store_def)
  show ?thesis
    unfolding rebuild_def Let_def g v srt a
    by (simp add: two_store_def fill_rubble_def)
qed

lemma sort_two_targets:
  "sort_key vd_y two_targets =
     [\<lparr>vd_x = 1, vd_y = 0, vd_z = 1, vd_color = 0x00ff00\<rparr>,
      \<lparr>vd_x = 2, vd_y = 3, vd_z = 5, vd_color = 0x0000ff\<rparr>]"
  by (simp add: two_targets_def)

lemma assign_green_first:
  "assign_target 2 \<lparr>vd_x = 1, vd_y = 0, vd_z = 1, vd_color = 0x00ff00\<rparr> 0
     ([\<lparr>av_index = 0, av_color = Color 255 0 0, av_taken = False\<rparr>,
       \<lparr>av_index = 1, av_color = Color 0 0 255, av_taken = False\<rparr>],
      [None, None], [red_voxel, blue_voxel])
   = ([\<lparr>av_index = 0, av_color = Color 255 0 0, av_taken = False\<rparr>,
       \<lparr>av_index = 1, av_color = Color 0 255 0, av_taken = True\<rparr>],
      [None, Some \<lparr>rt_x = 1, rt_y = 0, rt_z = 1, delay = 0, isRubble = False\<rparr>],
      [red_voxel, blue_voxel\<lparr>sv_color := Color 0 255 0\<rparr>])"
proof -
  have "scan \<lparr>vd_x = 1, vd_y = 0, vd_z = 1, vd_color = 0x00ff00\<rparr>
     [\<lparr>av_index = 0, av_color = Color 255 0 0, av_taken = False\<rparr>,
      \<lparr>av_index = 1, av_color = Color 0 0 255, av_taken = False\<rparr>] 0 9999 None = Some 1"
    by (simp add: example_colors)
  then show ?thesis
    by (simp add: assign_target_def mk_target_def example_colors)
qed

lemma assign_blue_second:
  "assign_target 2 \<lparr>vd_x = 2, vd_y = 3, vd_z = 5, vd_color = 0x0000ff\<rparr> 1
     ([\<lparr>av_index = 0, av_color = Color 255 0 0, av_taken = False\<rparr>,
       \<lparr>av_index = 1, av_color = Color 0 255 0, av_taken = True\<rparr>],
      [None, Some \<lparr>rt_x = 1, rt_y = 0, rt_z = 1, delay = 0, isRubble = False\<rparr>],
      [red_voxel, blue_voxel\<lparr>sv_color := Color 0 255 0\<rparr>])
   = ([\<lparr>av_index = 0, av_color = Color 0 0 255, av_taken = True\<rparr>,
       \<lparr>av_index = 1, av_color = Color 0 255 0, av_taken = True\<rparr>],
      [Some \<lparr>rt_x = 2, rt_y = 3, rt_z = 5, delay = 1 / 2, isRubble = False\<rparr>,
       Some \<lparr>rt_x = 1, rt_y = 0, rt_z = 1, delay = 0, isRubble = False\<rparr>],
      [red_voxel\<lparr>sv_color := Color 0 0 255\<rparr>, blue_voxel\<lparr>sv_color := Color 0 255 0\<rparr>])"
proof -
  have "scan \<lparr>vd_x = 2, vd_y = 3, vd_z = 5, vd_color = 0x0000ff\<rparr>
     [\<lparr>av_index = 0, av_color = Color 255 0 0, av_taken = False\<rparr>,
      \<lparr>av_index = 1, av_color = Color 0 255 0, av_taken = True\<rparr>] 0 9999 None = Some 0"
    by (simp add: example_colors)
  then show ?thesis
    by (simp add: assign_target_def mk_target_def example_colors)
qed

lemma rebuild_equal_example:
  "rebuild (-10) 7 two_targets True two_store =
     \<lparr>voxels = [red_voxel\<lparr>sv_color := Color 0 0 255\<rparr>, blue_voxel\<lparr>sv_color := Color 0 255 0\<rparr>],
      rebuildTargets = [\<lparr>rt_x = 2, rt_y = 3, rt_z = 5, delay = 1 / 2, isRubble = False\<rparr>,
                        \<lparr>rt_x = 1, rt_y = 0, rt_z = 1, delay = 0, isRubble = False\<rparr>],
      rebuildStartTime = 7, state = REBUILDING, isProgressive = True, manualProgress = 0\<rparr>"
proof -
  have g: "grow two_targets (two_store\<lparr>state := REBUILDING, isProgressive := True\<rparr>)
      = two_store\<lparr>state := REBUILDING, isProgressive := True\<rparr>"
    by (rule grow_same) (simp add: two_targets_def two_store_def)
  have v: "voxels (two_store\<lparr>state := REBUILDING, isProgressive := True\<rparr>) = voxels two_store"
    by simp
  have l: "length (sort_key vd_y two_targets) = 2"
    by (simp add: two_targets_def)
  have a: "assign_all 2 (sort_key vd_y two_targets) 0
       (initial_available (voxels two_store), replicate (length (voxels two_store)) None,
        voxels two_store)
     = ([\<lparr>av_index = 0, av_color = Color 0 0 255, av_taken = True\<rparr>,
         \<lparr>av_index = 1, av_color = Color 0 255 0, av_taken = True\<rparr>],
        [Some \<lparr>rt_x = 2, rt_y = 3, rt_z = 5, delay = 1 / 2, isRubble = False\<rparr>,
         Some \<lparr>rt_x = 1, rt_y = 0, rt_z = 1, delay = 0, isRubble = False\<rparr>],
        [red_voxel\<lparr>sv_color := Color 0 0 255\<rparr>, blue_voxel\<lparr>sv_color := Color 0 255 0\<rparr>])"
    unfolding available_two_store sort_two_targets
    using assign_green_first assign_blue_second
    by (simp add: two_store_def)
  show ?thesis
    unfolding rebuild_def Let_def g v l a
    by (simp add: two_store_def fill_rubble_def)
qed

section \<open>rebuild: properties\<close>

text \<open>
  C1. No two voxels are assigned the same target slot: two matched targets produced by
  one \<^verbatim>\<open>rebuild\<close> never carry the same delay (the delay is rank / count, so it names
  the slot). When the store and the target list have the same length \<open>N\<close>, the store
  and the targets keep that length, no target is rubble (all \<open>N\<close> voxels are matched),
  and for every rank \<open>k < N\<close> exactly one voxel holds the target of rank \<open>k\<close> of the
  list sorted by height.
\<close>

theorem rebuild_one_to_one:
  "(\<forall>i < length (rebuildTargets (rebuild FLOOR_Y now tm progressive s)).
    \<forall>j < length (rebuildTargets (rebuild FLOOR_Y now tm progressive s)).
      \<not> isRubble (rebuildTargets (rebuild FLOOR_Y now tm progressive s) ! i) \<longrightarrow>
      \<not> isRubble (rebuildTargets (rebuild FLOOR_Y now tm progressive s) ! j) \<longrightarrow>
      delay (rebuildTargets (rebuild FLOOR_Y now tm progressive s) ! i) =
        delay (rebuildTargets (rebuild FLOOR_Y now tm progressive s) ! j) \<longrightarrow> i = j) \<and>
   (length (voxels s) = length tm \<longrightarrow>
      length (voxels (rebuild FLOOR_Y now tm progressive s)) = length tm \<and>
      length (rebuildTargets (rebuild FLOOR_Y now tm progressive s)) = length tm \<and>
      (\<forall>i < length tm. \<not> isRubble (rebuildTargets (rebuild FLOOR_Y now tm progressive s) ! i)) \<and>
      (\<forall>k < length tm. \<exists>!i. i < length tm \<and>
          rebuildTargets (rebuild FLOOR_Y now tm progressive s) ! i =
            mk_target (length tm) (sort_key vd_y tm ! k) k))"
proof -
  let ?srt = "sort_key vd_y tm"
  let ?ts = "rebuildTargets (rebuild FLOOR_Y now tm progressive s)"
  from rebuild_char [of tm FLOOR_Y now progressive s]
  obtain mp where m: "matched ?srt mp (voxels (rebuild FLOOR_Y now tm progressive s))"
    and lm: "length mp = max (length (voxels s)) (length tm)"
    and ts: "?ts = map (fill_rubble FLOOR_Y) mp" by blast
  from matched_inj [OF m] have inj: "\<forall>i < length mp. \<forall>i' < length mp. \<forall>t t'.
        mp ! i = Some t \<longrightarrow> mp ! i' = Some t' \<longrightarrow> delay t = delay t' \<longrightarrow> i = i'" .
  from matched_ex [OF m] have ex: "\<forall>j < length ?srt. \<exists>i < length mp. mp ! i = Some (mk_target (length ?srt) (?srt ! j) j)" .
  from matched_cnt [OF m] have cnt: "length (filter (\<lambda>m. m \<noteq> None) mp) = length ?srt" .
  from matched_len [OF m] have lv: "length (voxels (rebuild FLOOR_Y now tm progressive s)) = length mp" .
  have one: "\<forall>i < length ?ts. \<forall>j < length ?ts.
      \<not> isRubble (?ts ! i) \<longrightarrow> \<not> isRubble (?ts ! j) \<longrightarrow> delay (?ts ! i) = delay (?ts ! j) \<longrightarrow> i = j"
  proof (intro allI impI)
    fix i j
    assume h: "i < length ?ts" "j < length ?ts" "\<not> isRubble (?ts ! i)" "\<not> isRubble (?ts ! j)"
      "delay (?ts ! i) = delay (?ts ! j)"
    from h ts have il: "i < length mp" and jl: "j < length mp" by simp_all
    from h(3) ts il have "\<not> isRubble (fill_rubble FLOOR_Y (mp ! i))" by simp
    from matched_target [OF m il this] have ti: "mp ! i = Some (?ts ! i)" using ts il by simp
    from h(4) ts jl have "\<not> isRubble (fill_rubble FLOOR_Y (mp ! j))" by simp
    from matched_target [OF m jl this] have tj: "mp ! j = Some (?ts ! j)" using ts jl by simp
    from inj il jl ti tj h(5) show "i = j" by blast
  qed
  have full: "length (voxels s) = length tm \<longrightarrow>
      length (voxels (rebuild FLOOR_Y now tm progressive s)) = length tm \<and>
      length ?ts = length tm \<and> (\<forall>i < length tm. \<not> isRubble (?ts ! i)) \<and>
      (\<forall>k < length tm. \<exists>!i. i < length tm \<and> ?ts ! i = mk_target (length tm) (?srt ! k) k)"
  proof
    assume eq: "length (voxels s) = length tm"
    with lm have l: "length mp = length tm" by simp
    with cnt have "length (filter (\<lambda>m. m \<noteq> None) mp) = length mp" by simp
    then have all: "\<forall>m \<in> set mp. m \<noteq> None"
      using length_filter_less [of _ mp "\<lambda>m. m \<noteq> None"] by (metis less_irrefl)
    have nr: "\<forall>i < length tm. \<not> isRubble (?ts ! i)"
    proof (intro allI impI)
      fix i assume i: "i < length tm"
      with l all have "mp ! i \<noteq> None" by simp
      with matched_not_rubble [OF m, of i FLOOR_Y] i l ts show "\<not> isRubble (?ts ! i)" by simp
    qed
    have uniq: "\<forall>k < length tm. \<exists>!i. i < length tm \<and> ?ts ! i = mk_target (length tm) (?srt ! k) k"
    proof (intro allI impI)
      fix k assume k: "k < length tm"
      with ex obtain i where i: "i < length mp" "mp ! i = Some (mk_target (length tm) (?srt ! k) k)"
        by auto
      with ts l have here: "i < length tm \<and> ?ts ! i = mk_target (length tm) (?srt ! k) k"
        by (simp add: fill_rubble_def)
      show "\<exists>!i. i < length tm \<and> ?ts ! i = mk_target (length tm) (?srt ! k) k"
      proof (rule ex1I [of _ i])
        show "i < length tm \<and> ?ts ! i = mk_target (length tm) (?srt ! k) k" by (rule here)
      next
        fix j assume j: "j < length tm \<and> ?ts ! j = mk_target (length tm) (?srt ! k) k"
        with here have d: "delay (?ts ! j) = delay (?ts ! i)" by simp
        from j l ts have jl: "j < length ?ts" by simp
        from here l ts have il: "i < length ?ts" by simp
        from nr j have nj: "\<not> isRubble (?ts ! j)" by blast
        from nr here have ni: "\<not> isRubble (?ts ! i)" by blast
        from one jl il nj ni d show "j = i" by blast
      qed
    qed
    from l lv ts nr uniq show "length (voxels (rebuild FLOOR_Y now tm progressive s)) = length tm \<and>
      length ?ts = length tm \<and> (\<forall>i < length tm. \<not> isRubble (?ts ! i)) \<and>
      (\<forall>k < length tm. \<exists>!i. i < length tm \<and> ?ts ! i = mk_target (length tm) (?srt ! k) k)"
      by simp
  qed
  from one full show ?thesis by blast
qed

theorem rebuild_one_to_one_witness:
  "length (voxels two_store) = length two_targets \<and>
   length (rebuildTargets (rebuild (-10) 7 two_targets True two_store)) = length two_targets \<and>
   \<not> isRubble (rebuildTargets (rebuild (-10) 7 two_targets True two_store) ! 0) \<and>
   \<not> isRubble (rebuildTargets (rebuild (-10) 7 two_targets True two_store) ! 1) \<and>
   (\<exists>!i. i < length two_targets \<and>
      rebuildTargets (rebuild (-10) 7 two_targets True two_store) ! i =
        mk_target (length two_targets) (sort_key vd_y two_targets ! 0) 0) \<and>
   (\<exists>!i. i < length two_targets \<and>
      rebuildTargets (rebuild (-10) 7 two_targets True two_store) ! i =
        mk_target (length two_targets) (sort_key vd_y two_targets ! 1) 1)"
proof -
  have h: "length (voxels two_store) = length two_targets"
    by (simp add: two_store_def two_targets_def)
  have l: "0 < length two_targets" "1 < length two_targets"
    by (simp_all add: two_targets_def)
  from rebuild_one_to_one [where FLOOR_Y = "-10" and now = 7 and tm = two_targets
      and progressive = True and s = two_store] h l
  show ?thesis by blast
qed

text \<open>
  C2, as stated: after \<^verbatim>\<open>rebuild\<close> every delay lies in \<open>[0, 1]\<close>. With two voxels in
  the store and one target, the unmatched voxel gets a rubble target of delay 2.
\<close>

theorem rebuild_delay_counterexample:
  "isRubble (rebuildTargets (rebuild (-10) 7 one_target True two_store) ! 0) \<and>
   \<not> delay (rebuildTargets (rebuild (-10) 7 one_target True two_store) ! 0) \<le> 1"
  by (simp add: rebuild_shrink_example)

text \<open>
  C2, amended. After \<^verbatim>\<open>rebuild\<close> every target that is not rubble has a delay in
  \<open>[0, 1)\<close>, and every rubble target has delay 2, above every progress value in
  \<open>[0, 1]\<close>; after \<^verbatim>\<open>loadInitialModel\<close> no target is rubble and every delay is 0.
\<close>

theorem rebuild_delay_range:
  "(\<forall>t \<in> set (rebuildTargets (rebuild FLOOR_Y now tm progressive s)).
      (isRubble t \<longrightarrow> delay t = 2) \<and> (\<not> isRubble t \<longrightarrow> 0 \<le> delay t \<and> delay t < 1)) \<and>
   (\<forall>t \<in> set (rebuildTargets (loadInitialModel data s0)). \<not> isRubble t \<and> delay t = 0)"
proof -
  from rebuild_char [of tm FLOOR_Y now progressive s]
  obtain mp where m: "matched (sort_key vd_y tm) mp (voxels (rebuild FLOOR_Y now tm progressive s))"
    and ts: "rebuildTargets (rebuild FLOOR_Y now tm progressive s) = map (fill_rubble FLOOR_Y) mp"
    by blast
  have a: "\<forall>t \<in> set (rebuildTargets (rebuild FLOOR_Y now tm progressive s)).
      (isRubble t \<longrightarrow> delay t = 2) \<and> (\<not> isRubble t \<longrightarrow> 0 \<le> delay t \<and> delay t < 1)"
  proof
    fix t assume "t \<in> set (rebuildTargets (rebuild FLOOR_Y now tm progressive s))"
    with ts obtain i where i: "i < length mp" "t = fill_rubble FLOOR_Y (mp ! i)"
      by (auto simp: in_set_conv_nth)
    show "(isRubble t \<longrightarrow> delay t = 2) \<and> (\<not> isRubble t \<longrightarrow> 0 \<le> delay t \<and> delay t < 1)"
    proof (cases "mp ! i")
      case None
      with i show ?thesis by (simp add: fill_rubble_def)
    next
      case (Some u)
      from matched_Some [OF m i(1) Some] obtain j where
        j: "j < length tm" "u = mk_target (length tm) (sort_key vd_y tm ! j) j" by auto
      from j(1) have "0 < length tm" by linarith
      with j(1) have "0 < real (length tm)" "real j < real (length tm)"
        by (simp_all only: of_nat_0_less_iff of_nat_less_iff)
      then have "0 \<le> real j / real (length tm) \<and> real j / real (length tm) < 1"
        by (simp add: divide_less_eq)
      with Some i j(2) show ?thesis by (simp add: fill_rubble_def mk_target_def)
    qed
  qed
  have b: "\<forall>t \<in> set (rebuildTargets (loadInitialModel data s0)). \<not> isRubble t \<and> delay t = 0"
    by (auto simp: loadInitialModel_def)
  from a b show ?thesis by blast
qed

theorem rebuild_delay_range_witness:
  "rebuildTargets (rebuild (-10) 7 one_target True two_store) ! 0
     \<in> set (rebuildTargets (rebuild (-10) 7 one_target True two_store)) \<and>
   isRubble (rebuildTargets (rebuild (-10) 7 one_target True two_store) ! 0) \<and>
   delay (rebuildTargets (rebuild (-10) 7 one_target True two_store) ! 0) = 2 \<and>
   rebuildTargets (rebuild (-10) 7 one_target True two_store) ! 1
     \<in> set (rebuildTargets (rebuild (-10) 7 one_target True two_store)) \<and>
   \<not> isRubble (rebuildTargets (rebuild (-10) 7 one_target True two_store) ! 1) \<and>
   0 \<le> delay (rebuildTargets (rebuild (-10) 7 one_target True two_store) ! 1) \<and>
   delay (rebuildTargets (rebuild (-10) 7 one_target True two_store) ! 1) < 1 \<and>
   rebuildTargets (loadInitialModel one_target idle) ! 0
     \<in> set (rebuildTargets (loadInitialModel one_target idle)) \<and>
   delay (rebuildTargets (loadInitialModel one_target idle) ! 0) = 0"
proof -
  have m: "rebuildTargets (rebuild (-10) 7 one_target True two_store) ! 0
      \<in> set (rebuildTargets (rebuild (-10) 7 one_target True two_store))"
    "rebuildTargets (rebuild (-10) 7 one_target True two_store) ! 1
      \<in> set (rebuildTargets (rebuild (-10) 7 one_target True two_store))"
    "isRubble (rebuildTargets (rebuild (-10) 7 one_target True two_store) ! 0)"
    "\<not> isRubble (rebuildTargets (rebuild (-10) 7 one_target True two_store) ! 1)"
    by (simp_all add: rebuild_shrink_example)
  have i: "rebuildTargets (loadInitialModel one_target idle) ! 0
     \<in> set (rebuildTargets (loadInitialModel one_target idle))"
    by (simp add: loadInitialModel_def one_target_def)
  note T = rebuild_delay_range [where FLOOR_Y = "-10" and now = 7 and tm = one_target
      and progressive = True and s = two_store and data = one_target and ?s0.0 = idle]
  from T have A: "\<forall>t \<in> set (rebuildTargets (rebuild (-10) 7 one_target True two_store)).
      (isRubble t \<longrightarrow> delay t = 2) \<and> (\<not> isRubble t \<longrightarrow> 0 \<le> delay t \<and> delay t < 1)"
    by (rule conjunct1)
  from T have B: "\<forall>t \<in> set (rebuildTargets (loadInitialModel one_target idle)).
      \<not> isRubble t \<and> delay t = 0"
    by (rule conjunct2)
  from bspec [OF A m(1)] m(3)
  have d0: "delay (rebuildTargets (rebuild (-10) 7 one_target True two_store) ! 0) = 2"
    by blast
  from bspec [OF A m(2)] m(4)
  have d1: "0 \<le> delay (rebuildTargets (rebuild (-10) 7 one_target True two_store) ! 1) \<and>
     delay (rebuildTargets (rebuild (-10) 7 one_target True two_store) ! 1) < 1"
    by blast
  from bspec [OF B i]
  have d2: "delay (rebuildTargets (loadInitialModel one_target idle) ! 0) = 0"
    by blast
  from m i d0 d1 d2 show ?thesis by blast
qed

text \<open>
  C7. After \<^verbatim>\<open>rebuild\<close> there is one target per voxel. A target list longer than the
  store by \<open>k\<close> grows the store by exactly \<open>k\<close>. A target list no longer than the
  store leaves the store's length as it was, and the voxels in excess, as many as the
  difference of the lengths, are rubble.
\<close>

theorem rebuild_store_size:
  "length (rebuildTargets (rebuild FLOOR_Y now tm progressive s)) =
     length (voxels (rebuild FLOOR_Y now tm progressive s)) \<and>
   (length tm = length (voxels s) + k \<longrightarrow>
      length (voxels (rebuild FLOOR_Y now tm progressive s)) = length (voxels s) + k) \<and>
   (length tm \<le> length (voxels s) \<longrightarrow>
      length (voxels (rebuild FLOOR_Y now tm progressive s)) = length (voxels s) \<and>
      length (filter isRubble (rebuildTargets (rebuild FLOOR_Y now tm progressive s))) =
        length (voxels s) - length tm)"
proof -
  from rebuild_char [of tm FLOOR_Y now progressive s]
  obtain mp where m: "matched (sort_key vd_y tm) mp (voxels (rebuild FLOOR_Y now tm progressive s))"
    and lm: "length mp = max (length (voxels s)) (length tm)"
    and ts: "rebuildTargets (rebuild FLOOR_Y now tm progressive s) = map (fill_rubble FLOOR_Y) mp"
    by blast
  from matched_len [OF m] have lv: "length (voxels (rebuild FLOOR_Y now tm progressive s)) = length mp" .
  from matched_rubble_count [OF m, of FLOOR_Y] ts
  have rc: "length (filter isRubble (rebuildTargets (rebuild FLOOR_Y now tm progressive s))) =
      length mp - length tm" by simp
  from lv lm ts rc show ?thesis by auto
qed

theorem rebuild_store_size_witness:
  "length two_targets = length (voxels mid_rebuild) + 1 \<and>
   length (voxels (rebuild (-10) 7 two_targets True mid_rebuild)) = length (voxels mid_rebuild) + 1 \<and>
   length one_target \<le> length (voxels two_store) \<and>
   length (voxels (rebuild (-10) 7 one_target True two_store)) = length (voxels two_store) \<and>
   length (filter isRubble (rebuildTargets (rebuild (-10) 7 one_target True two_store))) =
     length (voxels two_store) - length one_target"
proof -
  have g: "length two_targets = length (voxels mid_rebuild) + 1"
    by (simp add: two_targets_def mid_rebuild_def)
  have k: "length one_target \<le> length (voxels two_store)"
    by (simp add: one_target_def two_store_def)
  from rebuild_store_size [where FLOOR_Y = "-10" and now = 7 and tm = two_targets
      and progressive = True and s = mid_rebuild and k = 1] g
    rebuild_store_size [where FLOOR_Y = "-10" and now = 7 and tm = one_target
      and progressive = True and s = two_store and k = 0] k
  show ?thesis by blast
qed

text \<open>
  C9. For two matched targets produced by one \<^verbatim>\<open>rebuild\<close>, the one with the lower
  \<^verbatim>\<open>y\<close> has the smaller or equal delay.
\<close>

theorem rebuild_delay_monotone:
  assumes "i < length (rebuildTargets (rebuild FLOOR_Y now tm progressive s))"
    and "j < length (rebuildTargets (rebuild FLOOR_Y now tm progressive s))"
    and "\<not> isRubble (rebuildTargets (rebuild FLOOR_Y now tm progressive s) ! i)"
    and "\<not> isRubble (rebuildTargets (rebuild FLOOR_Y now tm progressive s) ! j)"
    and "rt_y (rebuildTargets (rebuild FLOOR_Y now tm progressive s) ! i) <
         rt_y (rebuildTargets (rebuild FLOOR_Y now tm progressive s) ! j)"
  shows "delay (rebuildTargets (rebuild FLOOR_Y now tm progressive s) ! i) \<le>
         delay (rebuildTargets (rebuild FLOOR_Y now tm progressive s) ! j)"
proof -
  let ?srt = "sort_key vd_y tm"
  let ?ts = "rebuildTargets (rebuild FLOOR_Y now tm progressive s)"
  from rebuild_char [of tm FLOOR_Y now progressive s]
  obtain mp where m: "matched ?srt mp (voxels (rebuild FLOOR_Y now tm progressive s))"
    and ts: "?ts = map (fill_rubble FLOOR_Y) mp"
    by blast
  from assms(1,2) ts have il: "i < length mp" and jl: "j < length mp" by simp_all
  from assms(3) ts il have "\<not> isRubble (fill_rubble FLOOR_Y (mp ! i))" by simp
  from matched_target [OF m il this] have ti: "mp ! i = Some (?ts ! i)" using ts il by simp
  from assms(4) ts jl have "\<not> isRubble (fill_rubble FLOOR_Y (mp ! j))" by simp
  from matched_target [OF m jl this] have tj: "mp ! j = Some (?ts ! j)" using ts jl by simp
  from matched_Some [OF m il ti] obtain a where
    a: "a < length ?srt" "?ts ! i = mk_target (length ?srt) (?srt ! a) a" by blast
  from matched_Some [OF m jl tj] obtain b where
    b: "b < length ?srt" "?ts ! j = mk_target (length ?srt) (?srt ! b) b" by blast
  from assms(5) a(2) b(2) have lt: "vd_y (?srt ! a) < vd_y (?srt ! b)"
    by (simp add: mk_target_def)
  have srt: "sorted (map vd_y ?srt)" by (rule sorted_sort_key)
  have "a \<le> b"
  proof (rule ccontr)
    assume "\<not> a \<le> b"
    then have "b \<le> a" by simp
    from sorted_nth_mono [OF srt this] a(1) have "map vd_y ?srt ! b \<le> map vd_y ?srt ! a" by simp
    with a(1) b(1) have "vd_y (?srt ! b) \<le> vd_y (?srt ! a)" by simp
    with lt show False by simp
  qed
  then have "real a / real (length ?srt) \<le> real b / real (length ?srt)"
    by (simp add: divide_right_mono)
  with a(2) b(2) show ?thesis by simp
qed

theorem rebuild_delay_monotone_witness:
  "1 < length (rebuildTargets (rebuild (-10) 7 two_targets True two_store)) \<and>
   0 < length (rebuildTargets (rebuild (-10) 7 two_targets True two_store)) \<and>
   \<not> isRubble (rebuildTargets (rebuild (-10) 7 two_targets True two_store) ! 1) \<and>
   \<not> isRubble (rebuildTargets (rebuild (-10) 7 two_targets True two_store) ! 0) \<and>
   rt_y (rebuildTargets (rebuild (-10) 7 two_targets True two_store) ! 1) <
     rt_y (rebuildTargets (rebuild (-10) 7 two_targets True two_store) ! 0) \<and>
   delay (rebuildTargets (rebuild (-10) 7 two_targets True two_store) ! 1) \<le>
     delay (rebuildTargets (rebuild (-10) 7 two_targets True two_store) ! 0)"
proof -
  have h: "1 < length (rebuildTargets (rebuild (-10) 7 two_targets True two_store))"
    "0 < length (rebuildTargets (rebuild (-10) 7 two_targets True two_store))"
    "\<not> isRubble (rebuildTargets (rebuild (-10) 7 two_targets True two_store) ! 1)"
    "\<not> isRubble (rebuildTargets (rebuild (-10) 7 two_targets True two_store) ! 0)"
    "rt_y (rebuildTargets (rebuild (-10) 7 two_targets True two_store) ! 1) <
     rt_y (rebuildTargets (rebuild (-10) 7 two_targets True two_store) ! 0)"
    by (simp_all add: rebuild_equal_example)
  from rebuild_delay_monotone [OF h] h show ?thesis by blast
qed

text \<open>
  C10. When \<^verbatim>\<open>rebuild\<close> returns, a voxel with a matched target holds the target of some
  rank \<open>k\<close> of the sorted list, and its colour is already that target's colour.
\<close>

theorem rebuild_colors:
  assumes "i < length (voxels (rebuild FLOOR_Y now tm progressive s))"
    and "\<not> isRubble (rebuildTargets (rebuild FLOOR_Y now tm progressive s) ! i)"
  shows "\<exists>k < length tm.
           rebuildTargets (rebuild FLOOR_Y now tm progressive s) ! i =
             mk_target (length tm) (sort_key vd_y tm ! k) k \<and>
           sv_color (voxels (rebuild FLOOR_Y now tm progressive s) ! i) =
             setHex (vd_color (sort_key vd_y tm ! k))"
proof -
  let ?srt = "sort_key vd_y tm"
  let ?ts = "rebuildTargets (rebuild FLOOR_Y now tm progressive s)"
  from rebuild_char [of tm FLOOR_Y now progressive s]
  obtain mp where m: "matched ?srt mp (voxels (rebuild FLOOR_Y now tm progressive s))"
    and ts: "?ts = map (fill_rubble FLOOR_Y) mp"
    by blast
  from matched_len [OF m] assms(1) have il: "i < length mp" by simp
  from assms(2) ts il have "\<not> isRubble (fill_rubble FLOOR_Y (mp ! i))" by simp
  from matched_target [OF m il this] have ti: "mp ! i = Some (?ts ! i)" using ts il by simp
  from matched_Some [OF m il ti] show ?thesis by simp
qed

theorem rebuild_colors_witness:
  "0 < length (voxels (rebuild (-10) 7 two_targets True two_store)) \<and>
   \<not> isRubble (rebuildTargets (rebuild (-10) 7 two_targets True two_store) ! 0) \<and>
   (\<exists>k < length two_targets.
      rebuildTargets (rebuild (-10) 7 two_targets True two_store) ! 0 =
        mk_target (length two_targets) (sort_key vd_y two_targets ! k) k \<and>
      sv_color (voxels (rebuild (-10) 7 two_targets True two_store) ! 0) =
        setHex (vd_color (sort_key vd_y two_targets ! k)))"
proof -
  have h: "0 < length (voxels (rebuild (-10) 7 two_targets True two_store))"
    "\<not> isRubble (rebuildTargets (rebuild (-10) 7 two_targets True two_store) ! 0)"
    by (simp_all add: rebuild_equal_example)
  from rebuild_colors [OF h] h show ?thesis by blast
qed

section \<open>The frame handler and the end of a rebuild\<close>










section \<open>normalizeVoxels: properties\<close>

lemma js_round_int: "js_round a \<in> \<int>"
  by (simp add: js_round_def)

lemma js_round_near: "\<bar>js_round a - a\<bar> \<le> 1 / 2"
proof -
  have gen: "\<And>n::real. n \<le> a + 1 / 2 \<Longrightarrow> a + 1 / 2 < n + 1 \<Longrightarrow> \<bar>n - a\<bar> \<le> 1 / 2"
    by linarith
  show ?thesis unfolding js_round_def
    by (rule gen) (rule of_int_floor_le, rule real_of_int_floor_add_one_gt)
qed

lemma js_round_mono: "a \<le> b \<Longrightarrow> js_round a \<le> js_round b"
  unfolding js_round_def by (simp add: floor_mono)

lemma js_round_zero: "js_round 0 = 0"
  by (simp add: js_round_def)

lemma js_round_sym: "js_round h + js_round (- h) = 0 \<or> js_round h + js_round (- h) = 1"
proof -
  define n where "n = \<lfloor>h + 1 / 2\<rfloor>"
  have lo: "of_int n \<le> h + 1 / 2" unfolding n_def by (rule of_int_floor_le)
  have hi: "h + 1 / 2 < of_int n + 1" unfolding n_def by (rule real_of_int_floor_add_one_gt)
  show ?thesis
  proof (cases "h + 1 / 2 = of_int n")
    case True
    then have "- h + 1 / 2 = of_int (1 - n)" by simp
    then have "\<lfloor>- h + 1 / 2\<rfloor> = 1 - n" by (simp only: floor_of_int)
    then have "js_round (- h) = 1 - of_int n" by (simp add: js_round_def)
    moreover have "js_round h = of_int n" by (simp add: js_round_def n_def)
    ultimately show ?thesis by simp
  next
    case False
    with lo have "of_int n < h + 1 / 2" by simp
    with hi have "of_int (- n) \<le> - h + 1 / 2" "- h + 1 / 2 < of_int (- n) + 1" by simp_all
    then have "\<lfloor>- h + 1 / 2\<rfloor> = - n" by (rule floor_unique)
    then have "js_round (- h) = - of_int n" by (simp add: js_round_def)
    moreover have "js_round h = of_int n" by (simp add: js_round_def n_def)
    ultimately show ?thesis by simp
  qed
qed

lemma fold_min_le_start: "fold (\<lambda>u m. min m (f u)) vs (a::real) \<le> a"
proof (induction vs arbitrary: a)
  case Nil
  then show ?case by simp
next
  case (Cons v vs)
  have "fold (\<lambda>u m. min m (f u)) vs (min a (f v)) \<le> min a (f v)" by (rule Cons.IH)
  then show ?case by simp
qed

lemma fold_min_le_elem: "u \<in> set vs \<Longrightarrow> fold (\<lambda>u m. min m (f u)) vs (a::real) \<le> f u"
proof (induction vs arbitrary: a)
  case Nil
  then show ?case by simp
next
  case (Cons v vs)
  show ?case
  proof (cases "u = v")
    case True
    have "fold (\<lambda>u m. min m (f u)) vs (min a (f v)) \<le> min a (f v)" by (rule fold_min_le_start)
    with True show ?thesis by simp
  next
    case False
    with Cons.prems have "u \<in> set vs" by simp
    from Cons.IH [OF this] show ?thesis by simp
  qed
qed

lemma fold_min_attained:
  "fold (\<lambda>u m. min m (f u)) vs (a::real) = a \<or> (\<exists>u \<in> set vs. fold (\<lambda>u m. min m (f u)) vs a = f u)"
proof (induction vs arbitrary: a)
  case Nil
  then show ?case by simp
next
  case (Cons v vs)
  from Cons.IH [of "min a (f v)"] show ?case
    by (auto simp: min_def split: if_splits)
qed

lemma fold_max_ge_start: "a \<le> fold (\<lambda>u m. max m (f u)) vs (a::real)"
proof (induction vs arbitrary: a)
  case Nil
  then show ?case by simp
next
  case (Cons v vs)
  have "max a (f v) \<le> fold (\<lambda>u m. max m (f u)) vs (max a (f v))" by (rule Cons.IH)
  then show ?case by simp
qed

lemma fold_max_ge_elem: "u \<in> set vs \<Longrightarrow> f u \<le> fold (\<lambda>u m. max m (f u)) vs (a::real)"
proof (induction vs arbitrary: a)
  case Nil
  then show ?case by simp
next
  case (Cons v vs)
  show ?case
  proof (cases "u = v")
    case True
    have "max a (f v) \<le> fold (\<lambda>u m. max m (f u)) vs (max a (f v))" by (rule fold_max_ge_start)
    with True show ?thesis by simp
  next
    case False
    with Cons.prems have "u \<in> set vs" by simp
    from Cons.IH [OF this] show ?thesis by simp
  qed
qed

lemma fold_max_attained:
  "fold (\<lambda>u m. max m (f u)) vs (a::real) = a \<or> (\<exists>u \<in> set vs. fold (\<lambda>u m. max m (f u)) vs a = f u)"
proof (induction vs arbitrary: a)
  case Nil
  then show ?case by simp
next
  case (Cons v vs)
  from Cons.IH [of "max a (f v)"] show ?case
    by (auto simp: max_def split: if_splits)
qed

text \<open>The running minimum and maximum over a non-empty list are its least and greatest value.\<close>

lemma fold_min_is_Min:
  "fold (\<lambda>u m. min m (f u)) vs (f v) = Min (f ` set (v # vs))" for f :: "'b \<Rightarrow> real"
proof (rule sym, rule Min_eqI)
  show "finite (f ` set (v # vs))" by simp
next
  fix y assume "y \<in> f ` set (v # vs)"
  then obtain u where "u \<in> set (v # vs)" "y = f u" by blast
  then show "fold (\<lambda>u m. min m (f u)) vs (f v) \<le> y"
    using fold_min_le_start [of f vs "f v"] fold_min_le_elem [of u vs f "f v"] by auto
next
  from fold_min_attained [of f vs "f v"]
  show "fold (\<lambda>u m. min m (f u)) vs (f v) \<in> f ` set (v # vs)" by auto
qed

lemma fold_max_is_Max:
  "fold (\<lambda>u m. max m (f u)) vs (f v) = Max (f ` set (v # vs))" for f :: "'b \<Rightarrow> real"
proof (rule sym, rule Max_eqI)
  show "finite (f ` set (v # vs))" by simp
next
  fix y assume "y \<in> f ` set (v # vs)"
  then obtain u where "u \<in> set (v # vs)" "y = f u" by blast
  then show "y \<le> fold (\<lambda>u m. max m (f u)) vs (f v)"
    using fold_max_ge_start [of "f v" f vs] fold_max_ge_elem [of u vs f "f v"] by auto
next
  from fold_max_attained [of f vs "f v"]
  show "fold (\<lambda>u m. max m (f u)) vs (f v) \<in> f ` set (v # vs)" by auto
qed

text \<open>Rounding after a shift is monotone, so it maps the least value to the least value.\<close>

lemma Min_shift_round:
  assumes "xs \<noteq> []"
  shows "Min ((\<lambda>u. js_round (f u + off)) ` set xs) = js_round (Min (f ` set xs) + off)"
proof (rule Min_eqI)
  show "finite ((\<lambda>u. js_round (f u + off)) ` set xs)" by simp
next
  fix y assume "y \<in> (\<lambda>u. js_round (f u + off)) ` set xs"
  then obtain u where u: "u \<in> set xs" "y = js_round (f u + off)" by blast
  then have "Min (f ` set xs) \<le> f u" by simp
  then have "js_round (Min (f ` set xs) + off) \<le> js_round (f u + off)"
    by (intro js_round_mono) simp
  with u show "js_round (Min (f ` set xs) + off) \<le> y" by simp
next
  from assms have "Min (f ` set xs) \<in> f ` set xs" by (intro Min_in) simp_all
  then obtain u where "u \<in> set xs" "Min (f ` set xs) = f u" by blast
  then show "js_round (Min (f ` set xs) + off) \<in> (\<lambda>u. js_round (f u + off)) ` set xs"
    by auto
qed

lemma Max_shift_round:
  assumes "xs \<noteq> []"
  shows "Max ((\<lambda>u. js_round (f u + off)) ` set xs) = js_round (Max (f ` set xs) + off)"
proof (rule Max_eqI)
  show "finite ((\<lambda>u. js_round (f u + off)) ` set xs)" by simp
next
  fix y assume "y \<in> (\<lambda>u. js_round (f u + off)) ` set xs"
  then obtain u where u: "u \<in> set xs" "y = js_round (f u + off)" by blast
  then have "f u \<le> Max (f ` set xs)" by simp
  then have "js_round (f u + off) \<le> js_round (Max (f ` set xs) + off)"
    by (intro js_round_mono) simp
  with u show "y \<le> js_round (Max (f ` set xs) + off)" by simp
next
  from assms have "Max (f ` set xs) \<in> f ` set xs" by (intro Max_in) simp_all
  then obtain u where "u \<in> set xs" "Max (f ` set xs) = f u" by blast
  then show "js_round (Max (f ` set xs) + off) \<in> (\<lambda>u. js_round (f u + off)) ` set xs"
    by auto
qed

text \<open>\<^verbatim>\<open>normalizeVoxels\<close> on a non-empty list, with the bounds written as \<open>Min\<close> and \<open>Max\<close>.\<close>

lemma normalizeVoxels_map:
  assumes "xs \<noteq> []"
  shows "normalizeVoxels xs =
     map (\<lambda>u. u\<lparr>vd_x := js_round (vd_x u + - (Min (vd_x ` set xs) + Max (vd_x ` set xs)) / 2),
                 vd_y := js_round (vd_y u + - Min (vd_y ` set xs)),
                 vd_z := js_round (vd_z u + - (Min (vd_z ` set xs) + Max (vd_z ` set xs)) / 2)\<rparr>) xs"
proof -
  from assms obtain v vs where xs: "xs = v # vs" by (cases xs) auto
  show ?thesis
    unfolding xs normalizeVoxels.simps Let_def
      fold_min_is_Min [of vd_x vs v] fold_max_is_Max [of vd_x vs v]
      fold_min_is_Min [of vd_y vs v]
      fold_min_is_Min [of vd_z vs v] fold_max_is_Max [of vd_z vs v]
    by (rule refl)
qed

lemma half_sum_cases:
  "(a::real) + b = 0 \<or> a + b = 1 \<Longrightarrow> (a + b) / 2 = 0 \<or> (a + b) / 2 = 1 / 2"
  by auto

lemma centred_midpoint:
  assumes "xs \<noteq> []"
  shows "(Min ((\<lambda>u. js_round (f u + - (Min (f ` set xs) + Max (f ` set xs)) / 2)) ` set xs) +
          Max ((\<lambda>u. js_round (f u + - (Min (f ` set xs) + Max (f ` set xs)) / 2)) ` set xs)) / 2 = 0 \<or>
         (Min ((\<lambda>u. js_round (f u + - (Min (f ` set xs) + Max (f ` set xs)) / 2)) ` set xs) +
          Max ((\<lambda>u. js_round (f u + - (Min (f ` set xs) + Max (f ` set xs)) / 2)) ` set xs)) / 2 = 1 / 2"
proof -
  let ?lo = "Min (f ` set xs)" and ?hi = "Max (f ` set xs)"
  let ?off = "- (?lo + ?hi) / 2"
  have a: "?hi + ?off = (?hi - ?lo) / 2" by (simp add: field_simps)
  have b: "?lo + ?off = - ((?hi - ?lo) / 2)" by (simp add: field_simps)
  from js_round_sym [of "(?hi - ?lo) / 2"]
  have "js_round (?lo + ?off) + js_round (?hi + ?off) = 0 \<or>
        js_round (?lo + ?off) + js_round (?hi + ?off) = 1"
    unfolding a b by (simp add: add.commute)
  then show ?thesis
    unfolding Min_shift_round [OF assms] Max_shift_round [OF assms]
    by (rule half_sum_cases)
qed

text \<open>
  C8. The empty list is returned as it is. For a non-empty list the result has the same
  length and colours, every coordinate is an integer, the nearest one to the shifted
  input coordinate, the least \<^verbatim>\<open>y\<close> is 0, and the midpoint of the bounding box in
  \<^verbatim>\<open>x\<close> and in \<^verbatim>\<open>z\<close> is 0 or, when rounding moves both ends up, one half.
  \<^verbatim>\<open>normalizeVoxels\<close> is a function of its argument only: it has no engine to read or
  write.
\<close>

theorem normalizeVoxels_box:
  "normalizeVoxels [] = [] \<and>
   (xs \<noteq> [] \<longrightarrow>
      length (normalizeVoxels xs) = length xs \<and>
      Min (vd_y ` set (normalizeVoxels xs)) = 0 \<and>
      ((Min (vd_x ` set (normalizeVoxels xs)) + Max (vd_x ` set (normalizeVoxels xs))) / 2 = 0 \<or>
       (Min (vd_x ` set (normalizeVoxels xs)) + Max (vd_x ` set (normalizeVoxels xs))) / 2 = 1 / 2) \<and>
      ((Min (vd_z ` set (normalizeVoxels xs)) + Max (vd_z ` set (normalizeVoxels xs))) / 2 = 0 \<or>
       (Min (vd_z ` set (normalizeVoxels xs)) + Max (vd_z ` set (normalizeVoxels xs))) / 2 = 1 / 2) \<and>
      (\<forall>i < length xs.
         vd_color (normalizeVoxels xs ! i) = vd_color (xs ! i) \<and>
         vd_x (normalizeVoxels xs ! i) \<in> \<int> \<and>
         vd_y (normalizeVoxels xs ! i) \<in> \<int> \<and>
         vd_z (normalizeVoxels xs ! i) \<in> \<int> \<and>
         \<bar>vd_x (normalizeVoxels xs ! i) -
            (vd_x (xs ! i) - (Min (vd_x ` set xs) + Max (vd_x ` set xs)) / 2)\<bar> \<le> 1 / 2 \<and>
         \<bar>vd_y (normalizeVoxels xs ! i) - (vd_y (xs ! i) - Min (vd_y ` set xs))\<bar> \<le> 1 / 2 \<and>
         \<bar>vd_z (normalizeVoxels xs ! i) -
            (vd_z (xs ! i) - (Min (vd_z ` set xs) + Max (vd_z ` set xs)) / 2)\<bar> \<le> 1 / 2))"
proof -
  have empty: "normalizeVoxels [] = []" by simp
  have nonempty: "length (normalizeVoxels xs) = length xs \<and>
      Min (vd_y ` set (normalizeVoxels xs)) = 0 \<and>
      ((Min (vd_x ` set (normalizeVoxels xs)) + Max (vd_x ` set (normalizeVoxels xs))) / 2 = 0 \<or>
       (Min (vd_x ` set (normalizeVoxels xs)) + Max (vd_x ` set (normalizeVoxels xs))) / 2 = 1 / 2) \<and>
      ((Min (vd_z ` set (normalizeVoxels xs)) + Max (vd_z ` set (normalizeVoxels xs))) / 2 = 0 \<or>
       (Min (vd_z ` set (normalizeVoxels xs)) + Max (vd_z ` set (normalizeVoxels xs))) / 2 = 1 / 2) \<and>
      (\<forall>i < length xs.
         vd_color (normalizeVoxels xs ! i) = vd_color (xs ! i) \<and>
         vd_x (normalizeVoxels xs ! i) \<in> \<int> \<and>
         vd_y (normalizeVoxels xs ! i) \<in> \<int> \<and>
         vd_z (normalizeVoxels xs ! i) \<in> \<int> \<and>
         \<bar>vd_x (normalizeVoxels xs ! i) -
            (vd_x (xs ! i) - (Min (vd_x ` set xs) + Max (vd_x ` set xs)) / 2)\<bar> \<le> 1 / 2 \<and>
         \<bar>vd_y (normalizeVoxels xs ! i) - (vd_y (xs ! i) - Min (vd_y ` set xs))\<bar> \<le> 1 / 2 \<and>
         \<bar>vd_z (normalizeVoxels xs ! i) -
            (vd_z (xs ! i) - (Min (vd_z ` set xs) + Max (vd_z ` set xs)) / 2)\<bar> \<le> 1 / 2)"
    if ne: "xs \<noteq> []"
  proof -
    let ?ox = "- (Min (vd_x ` set xs) + Max (vd_x ` set xs)) / 2"
    let ?oy = "- Min (vd_y ` set xs)"
    let ?oz = "- (Min (vd_z ` set xs) + Max (vd_z ` set xs)) / 2"
    note nv = normalizeVoxels_map [OF ne]
    have len: "length (normalizeVoxels xs) = length xs" by (simp add: nv)
    have ix: "vd_x ` set (normalizeVoxels xs) = (\<lambda>u. js_round (vd_x u + ?ox)) ` set xs"
      by (simp add: nv image_image)
    have iy: "vd_y ` set (normalizeVoxels xs) = (\<lambda>u. js_round (vd_y u + ?oy)) ` set xs"
      by (simp add: nv image_image)
    have iz: "vd_z ` set (normalizeVoxels xs) = (\<lambda>u. js_round (vd_z u + ?oz)) ` set xs"
      by (simp add: nv image_image)
    have y0: "Min (vd_y ` set (normalizeVoxels xs)) = 0"
      unfolding iy Min_shift_round [OF ne] by (simp add: js_round_zero)
    have xm: "(Min (vd_x ` set (normalizeVoxels xs)) + Max (vd_x ` set (normalizeVoxels xs))) / 2 = 0 \<or>
       (Min (vd_x ` set (normalizeVoxels xs)) + Max (vd_x ` set (normalizeVoxels xs))) / 2 = 1 / 2"
      unfolding ix by (rule centred_midpoint [OF ne])
    have zm: "(Min (vd_z ` set (normalizeVoxels xs)) + Max (vd_z ` set (normalizeVoxels xs))) / 2 = 0 \<or>
       (Min (vd_z ` set (normalizeVoxels xs)) + Max (vd_z ` set (normalizeVoxels xs))) / 2 = 1 / 2"
      unfolding iz by (rule centred_midpoint [OF ne])
    have each: "\<forall>i < length xs.
         vd_color (normalizeVoxels xs ! i) = vd_color (xs ! i) \<and>
         vd_x (normalizeVoxels xs ! i) \<in> \<int> \<and>
         vd_y (normalizeVoxels xs ! i) \<in> \<int> \<and>
         vd_z (normalizeVoxels xs ! i) \<in> \<int> \<and>
         \<bar>vd_x (normalizeVoxels xs ! i) -
            (vd_x (xs ! i) - (Min (vd_x ` set xs) + Max (vd_x ` set xs)) / 2)\<bar> \<le> 1 / 2 \<and>
         \<bar>vd_y (normalizeVoxels xs ! i) - (vd_y (xs ! i) - Min (vd_y ` set xs))\<bar> \<le> 1 / 2 \<and>
         \<bar>vd_z (normalizeVoxels xs ! i) -
            (vd_z (xs ! i) - (Min (vd_z ` set xs) + Max (vd_z ` set xs)) / 2)\<bar> \<le> 1 / 2"
    proof (intro allI impI)
      fix i assume i: "i < length xs"
      have vx: "vd_x (normalizeVoxels xs ! i) = js_round (vd_x (xs ! i) + ?ox)"
        and vy: "vd_y (normalizeVoxels xs ! i) = js_round (vd_y (xs ! i) + ?oy)"
        and vz: "vd_z (normalizeVoxels xs ! i) = js_round (vd_z (xs ! i) + ?oz)"
        and vc: "vd_color (normalizeVoxels xs ! i) = vd_color (xs ! i)"
        using i by (simp_all add: nv)
      have ex: "vd_x (xs ! i) - (Min (vd_x ` set xs) + Max (vd_x ` set xs)) / 2 = vd_x (xs ! i) + ?ox"
        by (simp only: diff_conv_add_uminus minus_divide_left)
      have ey: "vd_y (xs ! i) - Min (vd_y ` set xs) = vd_y (xs ! i) + ?oy"
        by (simp only: diff_conv_add_uminus)
      have ez: "vd_z (xs ! i) - (Min (vd_z ` set xs) + Max (vd_z ` set xs)) / 2 = vd_z (xs ! i) + ?oz"
        by (simp only: diff_conv_add_uminus minus_divide_left)
      show "vd_color (normalizeVoxels xs ! i) = vd_color (xs ! i) \<and>
         vd_x (normalizeVoxels xs ! i) \<in> \<int> \<and>
         vd_y (normalizeVoxels xs ! i) \<in> \<int> \<and>
         vd_z (normalizeVoxels xs ! i) \<in> \<int> \<and>
         \<bar>vd_x (normalizeVoxels xs ! i) -
            (vd_x (xs ! i) - (Min (vd_x ` set xs) + Max (vd_x ` set xs)) / 2)\<bar> \<le> 1 / 2 \<and>
         \<bar>vd_y (normalizeVoxels xs ! i) - (vd_y (xs ! i) - Min (vd_y ` set xs))\<bar> \<le> 1 / 2 \<and>
         \<bar>vd_z (normalizeVoxels xs ! i) -
            (vd_z (xs ! i) - (Min (vd_z ` set xs) + Max (vd_z ` set xs)) / 2)\<bar> \<le> 1 / 2"
        unfolding ex ey ez vx vy vz
        by (intro conjI vc js_round_int js_round_near)
    qed
    from len y0 xm zm each show ?thesis by blast
  qed
  from empty nonempty show ?thesis by blast
qed

lemma normalizeVoxels_slanted:
  "normalizeVoxels slanted =
     [\<lparr>vd_x = -1, vd_y = 0, vd_z = -1, vd_color = 0xff0000\<rparr>,
      \<lparr>vd_x = 2, vd_y = 3, vd_z = 1, vd_color = 0x0000ff\<rparr>]"
  by (simp add: slanted_def js_round_def)

theorem normalizeVoxels_box_witness:
  "slanted \<noteq> [] \<and>
   Min (vd_y ` set (normalizeVoxels slanted)) = 0 \<and>
   ((Min (vd_x ` set (normalizeVoxels slanted)) + Max (vd_x ` set (normalizeVoxels slanted))) / 2 = 0 \<or>
    (Min (vd_x ` set (normalizeVoxels slanted)) + Max (vd_x ` set (normalizeVoxels slanted))) / 2 = 1 / 2) \<and>
   ((Min (vd_z ` set (normalizeVoxels slanted)) + Max (vd_z ` set (normalizeVoxels slanted))) / 2 = 0 \<or>
    (Min (vd_z ` set (normalizeVoxels slanted)) + Max (vd_z ` set (normalizeVoxels slanted))) / 2 = 1 / 2) \<and>
   vd_x (normalizeVoxels slanted ! 0) \<in> \<int>"
proof -
  have ne: "slanted \<noteq> []" by (simp add: slanted_def)
  have i: "0 < length slanted" by (simp add: slanted_def)
  from normalizeVoxels_box [of slanted] ne i show ?thesis by blast
qed

end
